theory Spec2Isabelle
  imports Complex_Main
begin

section \<open>Go library functions used by the Job Manager\<close>

text \<open>
  Go strings are byte sequences; they are modelled as \<open>string\<close> (a list of 8-bit
  characters). \<open>strings.TrimSpace\<close> removes every leading and every trailing white
  space rune as \<open>unicode.IsSpace\<close> defines it. A rune is white space exactly when
  its shortest UTF-8 encoding is one of the byte sequences below; an invalid or over-long
  sequence decodes to \<open>utf8.RuneError\<close>, which is not white space.
\<close>

definition spaceEncodings :: "string list" where
  "spaceEncodings =
     [[CHR 0x09], [CHR 0x0A], [CHR 0x0B], [CHR 0x0C], [CHR 0x0D], [CHR 0x20],
      [CHR 0xC2, CHR 0x85], [CHR 0xC2, CHR 0xA0],
      [CHR 0xE1, CHR 0x9A, CHR 0x80],
      [CHR 0xE2, CHR 0x80, CHR 0x80], [CHR 0xE2, CHR 0x80, CHR 0x81],
      [CHR 0xE2, CHR 0x80, CHR 0x82], [CHR 0xE2, CHR 0x80, CHR 0x83],
      [CHR 0xE2, CHR 0x80, CHR 0x84], [CHR 0xE2, CHR 0x80, CHR 0x85],
      [CHR 0xE2, CHR 0x80, CHR 0x86], [CHR 0xE2, CHR 0x80, CHR 0x87],
      [CHR 0xE2, CHR 0x80, CHR 0x88], [CHR 0xE2, CHR 0x80, CHR 0x89],
      [CHR 0xE2, CHR 0x80, CHR 0x8A],
      [CHR 0xE2, CHR 0x80, CHR 0xA8], [CHR 0xE2, CHR 0x80, CHR 0xA9],
      [CHR 0xE2, CHR 0x80, CHR 0xAF],
      [CHR 0xE2, CHR 0x81, CHR 0x9F],
      [CHR 0xE3, CHR 0x80, CHR 0x80]]"

text \<open>Repeatedly strips one of the given byte sequences from the front of a string.\<close>

fun trimPrefixes :: "string list \<Rightarrow> string \<Rightarrow> string" where
  "trimPrefixes encs [] = []"
| "trimPrefixes encs (c # cs) =
     (case find (\<lambda>p. p \<noteq> [] \<and> take (length p) (c # cs) = p) encs of
        None \<Rightarrow> c # cs
      | Some p \<Rightarrow> trimPrefixes encs (drop (length p - 1) cs))"

definition TrimSpace :: "string \<Rightarrow> string" where
  "TrimSpace s =
     rev (trimPrefixes (map rev spaceEncodings) (rev (trimPrefixes spaceEncodings s)))"

section \<open>The Job Manager: data\<close>

text \<open>
  The status constants of package \<open>api\<close>. Go's \<open>int\<close> is modelled as \<open>int\<close>: the
  Job Manager stores and compares these numbers and converts them to float64, and does no
  integer arithmetic that could overflow. \<open>time.Time\<close> values are instants read from
  the clock; each reading is an input of the operation that makes it.
\<close>

definition JobStatusPending :: string where "JobStatusPending = ''pending''"
definition JobStatusProcessing :: string where "JobStatusProcessing = ''processing''"
definition JobStatusComplete :: string where "JobStatusComplete = ''complete''"
definition JobStatusFailed :: string where "JobStatusFailed = ''failed''"

definition FileStatusPending :: string where "FileStatusPending = ''pending''"
definition FileStatusProcessing :: string where "FileStatusProcessing = ''processing''"
definition FileStatusComplete :: string where "FileStatusComplete = ''complete''"
definition FileStatusError :: string where "FileStatusError = ''error''"

type_synonym time = nat
type_synonym addr = nat

text \<open>
  \<open>DocumentResult\<close>. The payload is an \<open>interface{}\<close> holding a pointer to an
  extraction or nil: an opaque reference here.
\<close>

record DocumentResult =
  resDocumentID :: int
  resName :: string
  resPages :: int
  resStatus :: string
  resMessage :: string
  resPayload :: "nat option"

text \<open>
  \<open>FileProgress\<close>. The field \<open>Result *DocumentResult\<close> is only ever assigned a
  freshly allocated copy (\<open>cloneResult\<close>, or \<open>&res\<close> in \<open>clone\<close>) and never
  written through, so the pointer is modelled by the value it points to, \<open>None\<close> for nil.
\<close>

record FileProgress =
  fileIndex :: int
  fileName :: string
  fileStatus :: string
  fileStep :: string
  fileMessage :: string
  fileCurrent :: int
  fileTotal :: int
  filePercent :: int
  fileResult :: "DocumentResult option"
  fileError :: string

text \<open>
  \<open>UploadJob\<close>. \<open>Files\<close> is a slice whose elements are mutated in place through
  \<open>&job.Files[index]\<close>: it is the address of its backing array (\<open>None\<close> for the nil
  slice), and its length is the length of that array. \<open>Results\<close> is only replaced by
  \<open>append\<close> and copied element by element, so it is the list of its elements.
\<close>

record UploadJob =
  jobID :: string
  jobStatus :: string
  jobCreatedAt :: time
  jobUpdatedAt :: time
  jobFiles :: "addr option"
  jobResults :: "DocumentResult list"
  jobError :: string

text \<open>
  The \<open>JobManager\<close> with the memory its pointers refer to: \<open>jobs\<close> is the map
  \<open>map[string]*UploadJob\<close>, \<open>objs\<close> holds the \<open>UploadJob\<close> structs and \<open>arrs\<close>
  the backing arrays of the \<open>Files\<close> slices; \<open>nextAddr\<close> is the next address the
  allocator hands out. Every method that writes to a stored job does so under the mutex,
  so each is one atomic step on this state. \<open>CreateJob\<close> and \<open>GetJob\<close> call
  \<open>clone\<close> after they release the lock; \<open>clone\<close> only reads the stored job and
  writes newly allocated memory, and the model takes the copy within the same step.
\<close>

record state =
  jobs :: "string \<rightharpoonup> addr"
  objs :: "addr \<Rightarrow> UploadJob"
  arrs :: "addr \<Rightarrow> FileProgress list"
  nextAddr :: addr

definition zeroFile :: FileProgress where
  "zeroFile = \<lparr>fileIndex = 0, fileName = [], fileStatus = [], fileStep = [],
     fileMessage = [], fileCurrent = 0, fileTotal = 0, filePercent = 0,
     fileResult = None, fileError = []\<rparr>"

definition zeroJob :: UploadJob where
  "zeroJob = \<lparr>jobID = [], jobStatus = [], jobCreatedAt = 0, jobUpdatedAt = 0,
     jobFiles = None, jobResults = [], jobError = []\<rparr>"

definition NewJobManager :: state where
  "NewJobManager = \<lparr>jobs = Map.empty, objs = (\<lambda>_. zeroJob), arrs = (\<lambda>_. []), nextAddr = 0\<rparr>"

text \<open>Allocation of a struct (\<open>&UploadJob{...}\<close>) and of an array (\<open>make\<close>).\<close>

definition newJob :: "UploadJob \<Rightarrow> state \<Rightarrow> state \<times> addr" where
  "newJob job s =
     (s\<lparr>objs := (objs s)(nextAddr s := job), nextAddr := Suc (nextAddr s)\<rparr>, nextAddr s)"

definition newFiles :: "FileProgress list \<Rightarrow> state \<Rightarrow> state \<times> addr" where
  "newFiles fs s =
     (s\<lparr>arrs := (arrs s)(nextAddr s := fs), nextAddr := Suc (nextAddr s)\<rparr>, nextAddr s)"

text \<open>Reading a \<open>Files\<close> slice; \<open>len\<close> of the nil slice is 0.\<close>

definition filesOf :: "state \<Rightarrow> UploadJob \<Rightarrow> FileProgress list" where
  "filesOf s job = (case jobFiles job of None \<Rightarrow> [] | Some fa \<Rightarrow> arrs s fa)"

text \<open>In-place writes through a job pointer and through a slot pointer.\<close>

definition setJob :: "addr \<Rightarrow> (UploadJob \<Rightarrow> UploadJob) \<Rightarrow> state \<Rightarrow> state" where
  "setJob a g s = s\<lparr>objs := (objs s)(a := g (objs s a))\<rparr>"

definition setFile :: "addr \<times> nat \<Rightarrow> (FileProgress \<Rightarrow> FileProgress) \<Rightarrow> state \<Rightarrow> state" where
  "setFile p g s =
     (case p of (fa, i) \<Rightarrow> s\<lparr>arrs := (arrs s)(fa := (arrs s fa)[i := g (arrs s fa ! i)])\<rparr>)"

section \<open>float64 arithmetic, as \<open>percent\<close> uses it\<close>

text \<open>
  A finite float64 is represented by the rational number it denotes. \<open>float64\<close> rounds
  a rational to the nearest number with a 53-bit significand, ties to even, as the
  conversion \<open>float64(n)\<close> and every IEEE 754 operation do. Exponent overflow and
  subnormal numbers are left out: they need a magnitude of at least \<open>2 ^ 1024\<close> or
  below \<open>2 ^ -1022\<close>, and \<open>percent\<close> only divides and multiplies numbers obtained
  from 64-bit integers.
\<close>

definition roundEven :: "rat \<Rightarrow> int" where
  "roundEven q =
     (let f = \<lfloor>q\<rfloor>; r = q - of_int f
      in if r < 1 / 2 then f else if 1 / 2 < r then f + 1 else if even f then f else f + 1)"

text \<open>The binary exponent \<open>e\<close> of a positive number: \<open>2 ^ e \<le> x < 2 ^ (e + 1)\<close>.\<close>

function exponentUp :: "rat \<Rightarrow> int" where
  "exponentUp x = (if x < 2 then 0 else exponentUp (x / 2) + 1)"
  by pat_completeness auto
termination
proof (relation "measure (\<lambda>x. nat \<lfloor>x\<rfloor>)")
  show "wf (measure (\<lambda>x::rat. nat \<lfloor>x\<rfloor>))" by simp
next
  fix x :: rat
  assume "\<not> x < 2"
  then have "2 \<le> \<lfloor>x\<rfloor>" by linarith
  moreover have "\<lfloor>x / 2\<rfloor> < \<lfloor>x\<rfloor>" using \<open>2 \<le> \<lfloor>x\<rfloor>\<close> by linarith
  ultimately show "(x / 2, x) \<in> measure (\<lambda>x. nat \<lfloor>x\<rfloor>)" by simp
qed

function exponentDown :: "rat \<Rightarrow> int" where
  "exponentDown x = (if x \<le> 0 \<or> 1 \<le> x then 0 else exponentDown (2 * x) - 1)"
  by pat_completeness auto
termination
proof (relation "measure (\<lambda>x. nat \<lfloor>1 / x\<rfloor>)")
  show "wf (measure (\<lambda>x::rat. nat \<lfloor>1 / x\<rfloor>))" by simp
next
  fix x :: rat
  assume "\<not> (x \<le> 0 \<or> 1 \<le> x)"
  then have x: "0 < x" "x < 1" by auto
  then have "1 < 1 / x" by simp
  then have f1: "1 \<le> \<lfloor>1 / x\<rfloor>" by linarith
  have "1 / (2 * x) = (1 / x) / 2" by simp
  then have "\<lfloor>1 / (2 * x)\<rfloor> < \<lfloor>1 / x\<rfloor>" using f1 by linarith
  then show "(2 * x, x) \<in> measure (\<lambda>x. nat \<lfloor>1 / x\<rfloor>)" using f1 by simp
qed

declare exponentUp.simps [simp del] exponentDown.simps [simp del]

definition exponent :: "rat \<Rightarrow> int" where
  "exponent x = (if 1 \<le> x then exponentUp x else exponentDown x)"

definition roundPos :: "rat \<Rightarrow> rat" where
  "roundPos x = (let u = 2 powi (exponent x - 52) in of_int (roundEven (x / u)) * u)"

definition float64 :: "rat \<Rightarrow> rat" where
  "float64 x = (if x = 0 then 0 else if 0 < x then roundPos x else - roundPos (- x))"

definition fdiv :: "rat \<Rightarrow> rat \<Rightarrow> rat" where
  "fdiv a b = float64 (a / b)"

definition fmul :: "rat \<Rightarrow> rat \<Rightarrow> rat" where
  "fmul a b = float64 (a * b)"

text \<open>The conversion \<open>int(f)\<close> discards the fraction (truncation towards zero).\<close>

definition toInt :: "rat \<Rightarrow> int" where
  "toInt x = (if 0 \<le> x then \<lfloor>x\<rfloor> else \<lceil>x\<rceil>)"

text \<open>\<open>percent(current, total)\<close>; the second parameter is written \<open>tot\<close>.\<close>

definition percent :: "int \<Rightarrow> int \<Rightarrow> int" where
  "percent current tot =
     (if tot \<le> 0 then
        (if current \<le> 0 then 0 else if current > 100 then 100 else current)
      else if current \<le> 0 then 0
      else if current \<ge> tot then 100
      else toInt (fmul (fdiv (float64 (of_int current)) (float64 (of_int tot))) 100))"

section \<open>The Job Manager: operations\<close>

text \<open>\<open>cloneResult\<close> copies the result into a new allocation.\<close>

definition cloneResult :: "DocumentResult \<Rightarrow> DocumentResult option" where
  "cloneResult result = (let res = result in Some res)"

text \<open>
  \<open>(*UploadJob).file\<close>, named \<open>file_ptr\<close> here since \<open>file\<close> is reserved: the
  pointer to slot \<open>index\<close> (backing array and position), nil when the index is out of
  range.
\<close>

definition file_ptr :: "state \<Rightarrow> UploadJob \<Rightarrow> int \<Rightarrow> (addr \<times> nat) option" where
  "file_ptr s job index =
     (if index < 0 \<or> index \<ge> int (length (filesOf s job)) then None
      else (case jobFiles job of None \<Rightarrow> None | Some fa \<Rightarrow> Some (fa, nat index)))"

text \<open>
  The statement \<open>if file := job.file(index); file != nil { ... }\<close> of the four slot
  operations: the writes \<open>g\<close> to the slot when it exists, nothing otherwise.
\<close>

definition withFile :: "addr \<Rightarrow> int \<Rightarrow> (FileProgress \<Rightarrow> FileProgress) \<Rightarrow> state \<Rightarrow> state" where
  "withFile job index g s =
     (case file_ptr s (objs s job) index of None \<Rightarrow> s | Some p \<Rightarrow> setFile p g s)"

text \<open>
  \<open>(*UploadJob).clone\<close>: a new struct, a new \<open>Files\<close> array when there are files (each
  slot copied, its result copied into a new allocation), the results copied.
\<close>

definition cloneFile :: "FileProgress \<Rightarrow> FileProgress" where
  "cloneFile f =
     (case fileResult f of None \<Rightarrow> f | Some res \<Rightarrow> f\<lparr>fileResult := Some res\<rparr>)"

definition clone :: "addr option \<Rightarrow> state \<Rightarrow> state \<times> addr option" where
  "clone p s =
     (case p of
        None \<Rightarrow> (s, None)
      | Some a \<Rightarrow>
          (let job = objs s a;
               (s1, c) = newJob \<lparr>jobID = jobID job, jobStatus = jobStatus job,
                           jobCreatedAt = jobCreatedAt job, jobUpdatedAt = jobUpdatedAt job,
                           jobFiles = None, jobResults = [], jobError = jobError job\<rparr> s;
               s2 = (if length (filesOf s1 job) > 0
                     then (let (s', fa) = newFiles (map cloneFile (filesOf s1 job)) s1
                           in setJob c (\<lambda>j. j\<lparr>jobFiles := Some fa\<rparr>) s')
                     else s1);
               s3 = (if length (jobResults job) > 0
                     then setJob c (\<lambda>j. j\<lparr>jobResults := map (\<lambda>res. res) (jobResults job)\<rparr>) s2
                     else s2)
           in (s3, Some c)))"

text \<open>
  \<open>CreateJob\<close>. The identifier from \<open>uuid.NewString()\<close> and the two readings of the
  clock are inputs. No other caller knows the identifier before \<open>CreateJob\<close> returns, so
  nothing writes to the new job between its insertion into the map and the clone.
\<close>

definition CreateJob ::
  "string list \<Rightarrow> string \<Rightarrow> time \<Rightarrow> time \<Rightarrow> state \<Rightarrow> state \<times> string \<times> addr option" where
  "CreateJob fileNames uuid now1 now2 s =
     (let (s1, fa) = newFiles
            (map (\<lambda>(i, name). zeroFile\<lparr>fileIndex := int i, fileName := name,
                                  fileStatus := FileStatusPending\<rparr>)
                 (enumerate 0 fileNames)) s;
          (s2, job) = newJob \<lparr>jobID = uuid, jobStatus = JobStatusPending,
                         jobCreatedAt = now1, jobUpdatedAt = now2, jobFiles = Some fa,
                         jobResults = [], jobError = []\<rparr> s1;
          s3 = s2\<lparr>jobs := (jobs s2)(jobID (objs s2 job) \<mapsto> job)\<rparr>;
          (s4, snap) = clone (Some job) s3
      in (s4, jobID (objs s4 job), snap))"

text \<open>\<open>GetJob\<close>: a clone of the stored job, or nil and false.\<close>

definition GetJob :: "string \<Rightarrow> state \<Rightarrow> state \<times> addr option \<times> bool" where
  "GetJob jid s =
     (case jobs s jid of
        None \<Rightarrow> (s, None, False)
      | Some job \<Rightarrow> (let (s', snap) = clone (Some job) s in (s', snap, True)))"

text \<open>
  \<open>withJob\<close>: looks the job up, runs the closure on its pointer, then stamps
  \<open>UpdatedAt\<close> with the clock reading \<open>now\<close>; nothing happens for an unknown id.
\<close>

definition withJob :: "string \<Rightarrow> (addr \<Rightarrow> state \<Rightarrow> state) \<Rightarrow> time \<Rightarrow> state \<Rightarrow> state" where
  "withJob jid fn now s =
     (case jobs s jid of
        None \<Rightarrow> s
      | Some job \<Rightarrow> setJob job (\<lambda>j. j\<lparr>jobUpdatedAt := now\<rparr>) (fn job s))"

definition MarkProcessing :: "string \<Rightarrow> time \<Rightarrow> state \<Rightarrow> state" where
  "MarkProcessing jid now s =
     withJob jid (\<lambda>job. setJob job (\<lambda>j. j\<lparr>jobStatus := JobStatusProcessing\<rparr>)) now s"

definition MarkCompleted :: "string \<Rightarrow> time \<Rightarrow> state \<Rightarrow> state" where
  "MarkCompleted jid now s =
     withJob jid (\<lambda>job. setJob job (\<lambda>j. j\<lparr>jobStatus := JobStatusComplete\<rparr>)) now s"

definition MarkFailed :: "string \<Rightarrow> string \<Rightarrow> time \<Rightarrow> state \<Rightarrow> state" where
  "MarkFailed jid msg now s =
     withJob jid (\<lambda>job. setJob job (\<lambda>j. j\<lparr>jobStatus := JobStatusFailed,
                                         jobError := TrimSpace msg\<rparr>)) now s"

definition MarkFileStarted :: "string \<Rightarrow> int \<Rightarrow> time \<Rightarrow> state \<Rightarrow> state" where
  "MarkFileStarted jid index now s =
     withJob jid (\<lambda>job.
       withFile job index (\<lambda>f. f\<lparr>fileStatus := FileStatusProcessing, fileStep := [],
                        fileMessage := ''Starting'', fileCurrent := 0, fileTotal := 100,
                        filePercent := 0, fileError := []\<rparr>)) now s"

definition UpdateFileProgress ::
  "string \<Rightarrow> int \<Rightarrow> string \<Rightarrow> string \<Rightarrow> int \<Rightarrow> int \<Rightarrow> time \<Rightarrow> state \<Rightarrow> state" where
  "UpdateFileProgress jid index step message current tot now s =
     withJob jid (\<lambda>job.
       withFile job index (\<lambda>f. f\<lparr>fileStatus := FileStatusProcessing, fileStep := step,
                        fileMessage := message, fileCurrent := current, fileTotal := tot,
                        filePercent := percent current tot\<rparr>)) now s"

definition MarkFileComplete :: "string \<Rightarrow> int \<Rightarrow> DocumentResult \<Rightarrow> time \<Rightarrow> state \<Rightarrow> state" where
  "MarkFileComplete jid index result now s =
     withJob jid (\<lambda>job s.
       (let s1 = withFile job index (\<lambda>f. f\<lparr>fileStatus := FileStatusComplete,
                     fileStep := ''complete'', fileMessage := ''Processing complete'',
                     fileCurrent := 100, fileTotal := 100, filePercent := 100,
                     fileResult := cloneResult result, fileError := []\<rparr>) s
        in setJob job (\<lambda>j. j\<lparr>jobResults := jobResults j @ [result]\<rparr>) s1)) now s"

text \<open>
  \<open>MarkFileError\<close>. The closure first stores a copy of the parameter \<open>result\<close> in the
  slot, then overwrites the parameter's status and empty message, then appends it.
\<close>

definition MarkFileError ::
  "string \<Rightarrow> int \<Rightarrow> string \<Rightarrow> DocumentResult \<Rightarrow> time \<Rightarrow> state \<Rightarrow> state" where
  "MarkFileError jid index message result now s =
     (let msg0 = TrimSpace message;
          msg = (if msg0 = [] then ''processing error'' else msg0)
      in withJob jid (\<lambda>job s.
           (let s1 = withFile job index (\<lambda>f. f\<lparr>fileStatus := FileStatusError,
                         fileStep := ''error'', fileMessage := msg, fileError := msg,
                         fileCurrent := 100, fileTotal := 100, filePercent := 100,
                         fileResult := cloneResult result\<rparr>) s;
                result1 = result\<lparr>resStatus := FileStatusError\<rparr>;
                result2 = (if resMessage result1 = [] then result1\<lparr>resMessage := msg\<rparr>
                           else result1)
            in setJob job (\<lambda>j. j\<lparr>jobResults := jobResults j @ [result2]\<rparr>) s1)) now s)"

text \<open>The exported operations as data, to speak about any call a client can make.\<close>

datatype op =
    OpCreateJob "string list" string time time
  | OpGetJob string
  | OpMarkProcessing string time
  | OpMarkCompleted string time
  | OpMarkFailed string string time
  | OpMarkFileStarted string int time
  | OpUpdateFileProgress string int string string int int time
  | OpMarkFileComplete string int DocumentResult time
  | OpMarkFileError string int string DocumentResult time

fun apply_op :: "op \<Rightarrow> state \<Rightarrow> state" where
  "apply_op (OpCreateJob names uuid now1 now2) s = fst (CreateJob names uuid now1 now2 s)"
| "apply_op (OpGetJob jid) s = fst (GetJob jid s)"
| "apply_op (OpMarkProcessing jid now) s = MarkProcessing jid now s"
| "apply_op (OpMarkCompleted jid now) s = MarkCompleted jid now s"
| "apply_op (OpMarkFailed jid msg now) s = MarkFailed jid msg now s"
| "apply_op (OpMarkFileStarted jid index now) s = MarkFileStarted jid index now s"
| "apply_op (OpUpdateFileProgress jid index step message current tot now) s =
     UpdateFileProgress jid index step message current tot now s"
| "apply_op (OpMarkFileComplete jid index result now) s = MarkFileComplete jid index result now s"
| "apply_op (OpMarkFileError jid index message result now) s =
     MarkFileError jid index message result now s"

text \<open>
  What Go's allocator guarantees of a reachable manager state: the structs and arrays in
  use lie below \<open>nextAddr\<close>, two identifiers never share a struct, and two structs never
  share a \<open>Files\<close> array.
\<close>

definition wf_state :: "state \<Rightarrow> bool" where
  "wf_state s \<longleftrightarrow>
     (\<forall>jid a. jobs s jid = Some a \<longrightarrow> a < nextAddr s) \<and>
     (\<forall>jid a fa. jobs s jid = Some a \<longrightarrow> jobFiles (objs s a) = Some fa \<longrightarrow> fa < nextAddr s) \<and>
     (\<forall>jid jid' a. jobs s jid = Some a \<longrightarrow> jobs s jid' = Some a \<longrightarrow> jid = jid') \<and>
     (\<forall>jid jid' a a' fa. jobs s jid = Some a \<longrightarrow> jobs s jid' = Some a' \<longrightarrow>
         jobFiles (objs s a) = Some fa \<longrightarrow> jobFiles (objs s a') = Some fa \<longrightarrow> a = a')"

text \<open>Reading a job and its slots through the manager's map.\<close>

definition jobOf :: "state \<Rightarrow> string \<Rightarrow> UploadJob option" where
  "jobOf s jid = map_option (objs s) (jobs s jid)"

definition slotsOf :: "state \<Rightarrow> string \<Rightarrow> FileProgress list" where
  "slotsOf s jid = (case jobs s jid of None \<Rightarrow> [] | Some a \<Rightarrow> filesOf s (objs s a))"

section \<open>The upload job runner\<close>

text \<open>
  \<open>runUploadJob\<close>. What \<open>processDocument\<close> does for one file is an input: the
  progress callbacks it makes, in order, then the result and the error it returns
  (\<open>err.Error()\<close>, \<open>None\<close> for nil). Every callback returns before
  \<open>processDocument\<close> does. \<open>clk n\<close> is the clock reading of the \<open>n\<close>-th call to
  the manager.
\<close>

record fileOutcome =
  outEvents :: "(string \<times> string \<times> int \<times> int) list"
  outResult :: DocumentResult
  outErr :: "string option"

fun runProgress ::
  "string \<Rightarrow> int \<Rightarrow> (string \<times> string \<times> int \<times> int) list \<Rightarrow> (nat \<Rightarrow> time) \<Rightarrow> nat \<Rightarrow> state
     \<Rightarrow> state \<times> nat" where
  "runProgress jid idx [] clk n s = (s, n)"
| "runProgress jid idx ((step, message, current, tot) # es) clk n s =
     runProgress jid idx es clk (Suc n)
       (UpdateFileProgress jid idx step message current tot (clk n) s)"

fun runFiles ::
  "string \<Rightarrow> int \<Rightarrow> fileOutcome list \<Rightarrow> (nat \<Rightarrow> time) \<Rightarrow> nat \<Rightarrow> state \<Rightarrow> state \<times> nat" where
  "runFiles jid idx [] clk n s = (s, n)"
| "runFiles jid idx (f # fs) clk n s =
     (let s1 = MarkFileStarted jid idx (clk n) s;
          (s2, n2) = runProgress jid idx (outEvents f) clk (Suc n) s1;
          s3 = (case outErr f of
                  Some e \<Rightarrow> MarkFileError jid idx e (outResult f) (clk n2) s2
                | None \<Rightarrow> MarkFileComplete jid idx (outResult f) (clk n2) s2)
      in runFiles jid (idx + 1) fs clk (Suc n2) s3)"

definition runUploadJob :: "string \<Rightarrow> fileOutcome list \<Rightarrow> (nat \<Rightarrow> time) \<Rightarrow> state \<Rightarrow> state" where
  "runUploadJob jid files clk s =
     (let s0 = MarkProcessing jid (clk 0) s;
          (s1, n) = runFiles jid 0 files clk 1 s0
      in MarkCompleted jid (clk n) s1)"

section \<open>The Analysis Client\<close>

text \<open>
  \<open>ZAIVisionService.AnalyzeMultipleImages\<close>. The service record holds what the method
  reads: the model name, whether \<open>http.NewRequestWithContext\<close> fails for the service's
  URL (the same at every attempt), what the \<open>k\<close>-th call of \<open>httpClient.Do\<close> followed
  by \<open>io.ReadAll\<close> yields for a request, and \<open>json.Unmarshal\<close> into a
  \<open>VisionResponse\<close>, reduced to the message contents of its choices.
  \<open>json.Marshal\<close> cannot fail on a \<open>VisionRequest\<close> (strings, booleans and finite
  numbers only), so that branch is left out.
\<close>

datatype MessageContent = ImageContent string | TextContent string

record VisionRequest =
  reqModel :: string
  reqContent :: "MessageContent list"

datatype httpOutcome =
    TransportFailed string
  | BodyReadFailed string
  | Response int string

datatype analyzeError =
    CreateRequestError string
  | ExecuteError string
  | ReadBodyError string
  | StatusError int string
  | UnmarshalError string string
  | NoChoicesError string
  | EmptyContentError nat nat
  | RetriesExhausted nat "analyzeError option"

record ZAIVisionService =
  model :: string
  requestError :: "string option"
  server :: "VisionRequest \<Rightarrow> nat \<Rightarrow> httpOutcome"
  unmarshal :: "string \<Rightarrow> string + string list"

text \<open>
  What a run of the method does besides returning: the number of calls of
  \<open>httpClient.Do\<close> and the durations passed to \<open>time.Sleep\<close>, in nanoseconds.
\<close>

record trace =
  calls :: nat
  sleeps :: "int list"

definition Second :: int where
  "Second = 1000000000"

definition maxRetries :: nat where
  "maxRetries = 2"

text \<open>
  The body of the retry loop after the wait, with its three exits named:
  \<open>return result, nil\<close> is \<open>Success\<close>, \<open>return "", lastErr\<close> is \<open>Terminal\<close>, and
  \<open>lastErr = ...; continue\<close> is \<open>Retry\<close>. \<open>k\<close> is the number of calls made so far.
\<close>

datatype attemptResult = Success string | Terminal analyzeError | Retry analyzeError

definition attemptBody :: "ZAIVisionService \<Rightarrow> VisionRequest \<Rightarrow> nat \<Rightarrow> nat \<Rightarrow> attemptResult" where
  "attemptBody svc req attempt k =
     (case requestError svc of
        Some e \<Rightarrow> Retry (CreateRequestError e)
      | None \<Rightarrow>
          (case server svc req k of
             TransportFailed e \<Rightarrow> Retry (ExecuteError e)
           | BodyReadFailed e \<Rightarrow> Retry (ReadBodyError e)
           | Response statusCode body \<Rightarrow>
               if statusCode \<noteq> 200 then
                 (if statusCode \<ge> 400 \<and> statusCode < 500
                  then Terminal (StatusError statusCode body)
                  else Retry (StatusError statusCode body))
               else
                 (case unmarshal svc body of
                    Inl e \<Rightarrow> Retry (UnmarshalError e body)
                  | Inr choices \<Rightarrow>
                      (case choices of
                         [] \<Rightarrow> Retry (NoChoicesError body)
                       | content # _ \<Rightarrow>
                           if content = []
                           then Retry (EmptyContentError (attempt + 1) (maxRetries + 1))
                           else Success content))))"

function attemptLoop ::
  "ZAIVisionService \<Rightarrow> VisionRequest \<Rightarrow> nat \<Rightarrow> analyzeError option \<Rightarrow> trace
     \<Rightarrow> (analyzeError + string) \<times> trace" where
  "attemptLoop svc req attempt lastErr tr =
     (if attempt \<le> maxRetries then
        (let tr1 = (if attempt > 0
                    then tr\<lparr>sleeps := sleeps tr @ [int attempt * 2 * Second]\<rparr> else tr);
             tr2 = (case requestError svc of
                      Some _ \<Rightarrow> tr1
                    | None \<Rightarrow> tr1\<lparr>calls := Suc (calls tr1)\<rparr>)
         in case attemptBody svc req attempt (calls tr1) of
              Success content \<Rightarrow> (Inr content, tr2)
            | Terminal e \<Rightarrow> (Inl e, tr2)
            | Retry e \<Rightarrow> attemptLoop svc req (Suc attempt) (Some e) tr2)
      else (Inl (RetriesExhausted (maxRetries + 1) lastErr), tr))"
  by pat_completeness auto
termination
  by (relation "measure (\<lambda>(svc, req, attempt, lastErr, tr). Suc maxRetries - attempt)") auto

declare attemptLoop.simps [simp del]

text \<open>
  The request the method builds before the loop: one user message whose content is the
  images in order, then the prompt. The other fields of the request are constants.
\<close>

definition buildRequest :: "ZAIVisionService \<Rightarrow> string list \<Rightarrow> string \<Rightarrow> VisionRequest" where
  "buildRequest svc imageDataURIs prompt =
     \<lparr>reqModel = model svc,
      reqContent = map ImageContent imageDataURIs @ [TextContent prompt]\<rparr>"

definition AnalyzeMultipleImages ::
  "ZAIVisionService \<Rightarrow> string list \<Rightarrow> string \<Rightarrow> (analyzeError + string) \<times> trace" where
  "AnalyzeMultipleImages svc imageDataURIs prompt =
     attemptLoop svc (buildRequest svc imageDataURIs prompt) 0 None \<lparr>calls = 0, sleeps = []\<rparr>"

section \<open>The Batch Analysis Engine\<close>

text \<open>
  \<open>PDFService.ConvertPDFPagesToImages\<close>, given the data URIs of the rendered page
  files in order: pages are numbered from 1. The failures of the file system and of the
  renderer are outside the model; a document without pages is an error.
\<close>

record PDFPageImage =
  PageNumber :: int
  ImageData :: string

definition ConvertPDFPagesToImages :: "string list \<Rightarrow> string + PDFPageImage list" where
  "ConvertPDFPagesToImages dataURIs =
     (if length dataURIs = 0 then Inl ''pdf has no pages''
      else Inr (map (\<lambda>(pageNum, dataURI). \<lparr>PageNumber = int pageNum, ImageData = dataURI\<rparr>)
                    (enumerate 1 dataURIs)))"

text \<open>\<open>fmt.Sprintf("%d", n)\<close> and \<open>strings.Join\<close>.\<close>

function digitsOf :: "nat \<Rightarrow> string" where
  "digitsOf n =
     (if n < 10 then [char_of (48 + n)] else digitsOf (n div 10) @ [char_of (48 + n mod 10)])"
  by pat_completeness auto
termination
  by (relation "measure (\<lambda>n. n)") auto

declare digitsOf.simps [simp del]

definition itoa :: "int \<Rightarrow> string" where
  "itoa i = (if i < 0 then CHR ''-'' # digitsOf (nat (- i)) else digitsOf (nat i))"

fun Join :: "string list \<Rightarrow> string \<Rightarrow> string" where
  "Join [] sep = []"
| "Join [x] sep = x"
| "Join (x # y # ys) sep = x @ sep @ Join (y # ys) sep"

text \<open>
  The local types \<open>batch\<close> and \<open>result\<close> of \<open>extractExamTopicsWithVisionAndProgress\<close>
  and \<open>generateFlashcardsWithVisionAndProgress\<close>, which differ in the batch size (8 and
  2), the prompt and the progress percentages only.
\<close>

record batch =
  batchStart :: int
  batchEnd :: int
  batchPages :: "PDFPageImage list"
  imageURIs :: "string list"
  pageNumbers :: "int list"

datatype batchError = AnalyzePagesError int int analyzeError

record batchResult =
  brIndex :: nat
  brAnalysis :: string
  brErr :: "batchError option"

definition zeroBatchResult :: batchResult where
  "zeroBatchResult = \<lparr>brIndex = 0, brAnalysis = [], brErr = None\<rparr>"

text \<open>
  The loop that creates the batches, from index \<open>i\<close> with the batches made so far. The
  batch size is a positive constant in both callers; the test \<open>0 < batchSize\<close> only makes
  the recursion well-founded for every argument.
\<close>

function makeBatches :: "nat \<Rightarrow> PDFPageImage list \<Rightarrow> nat \<Rightarrow> batch list \<Rightarrow> batch list" where
  "makeBatches batchSize pages i batches =
     (if 0 < batchSize \<and> i < length pages then
        (let e0 = i + batchSize;
             e = (if e0 > length pages then length pages else e0);
             bp = take (e - i) (drop i pages)
         in makeBatches batchSize pages (i + batchSize)
              (batches @ [\<lparr>batchStart = int i + 1, batchEnd = int e, batchPages = bp,
                           imageURIs = map ImageData bp, pageNumbers = map PageNumber bp\<rparr>]))
      else batches)"
  by pat_completeness auto
termination
  by (relation "measure (\<lambda>(batchSize, pages, i, batches). length pages - i)") auto

declare makeBatches.simps [simp del]

text \<open>
  The goroutine started for batch \<open>idx\<close>: one call of the Analysis Client, then the
  value it writes to \<open>results[idx]\<close>. \<open>vision idx\<close> is the service as that call finds
  it. Reading \<open>bt.pageNumbers[0]\<close> of an empty batch panics: \<open>None\<close>. The semaphore and
  the progress callbacks do not take part in the value written.
\<close>

definition runBatch ::
  "(nat \<Rightarrow> ZAIVisionService) \<Rightarrow> string \<Rightarrow> nat \<Rightarrow> batch \<Rightarrow> batchResult option" where
  "runBatch vision prompt idx bt =
     (case fst (AnalyzeMultipleImages (vision idx) (imageURIs bt) prompt) of
        Inl e \<Rightarrow> Some \<lparr>brIndex = idx, brAnalysis = [],
                   brErr = Some (AnalyzePagesError (batchStart bt) (batchEnd bt) e)\<rparr>
      | Inr analysis \<Rightarrow>
          (case pageNumbers bt of
             [] \<Rightarrow> None
           | p # ps \<Rightarrow>
               (let pageRange = ''Pages '' @ itoa p @ ''-'' @ itoa (last (p # ps))
                in Some \<lparr>brIndex = idx,
                     brAnalysis = ''=== '' @ pageRange @ '' ==='' @ [CHR 0x0A] @ analysis,
                     brErr = None\<rparr>)))"

text \<open>
  The goroutines finish in the order \<open>order\<close>, a list of batch indices chosen by the
  scheduler; each writes its own element of \<open>results\<close>. \<open>wg.Wait()\<close> returns when all
  have finished. The indices are those of the batches, so any other number in
  \<open>order\<close> names no goroutine and is passed over.
\<close>

fun runAll ::
  "(nat \<Rightarrow> ZAIVisionService) \<Rightarrow> string \<Rightarrow> batch list \<Rightarrow> nat list \<Rightarrow> batchResult list
     \<Rightarrow> batchResult list option" where
  "runAll vision prompt batches [] results = Some results"
| "runAll vision prompt batches (idx # order) results =
     (if idx < length batches then
        (case runBatch vision prompt idx (batches ! idx) of
           None \<Rightarrow> None
         | Some r \<Rightarrow> runAll vision prompt batches order (results[idx := r]))
      else runAll vision prompt batches order results)"

text \<open>The scan of the results in batch order: the first error, or all the texts.\<close>

fun collect :: "batchResult list \<Rightarrow> string list \<Rightarrow> batchError + string list" where
  "collect [] pageAnalyses = Inr pageAnalyses"
| "collect (res # rs) pageAnalyses =
     (case brErr res of
        Some e \<Rightarrow> Inl e
      | None \<Rightarrow> collect rs (pageAnalyses @ [brAnalysis res]))"

datatype pipelineError = NoPagesError | BatchFailed batchError | Panicked

text \<open>
  From the converted pages to \<open>combinedAnalysis\<close>, the part the two functions share,
  and the two functions with their batch sizes.
\<close>

definition analyzePages ::
  "nat \<Rightarrow> (nat \<Rightarrow> ZAIVisionService) \<Rightarrow> string \<Rightarrow> nat list \<Rightarrow> PDFPageImage list
     \<Rightarrow> pipelineError + string" where
  "analyzePages batchSize vision prompt order pages =
     (if length pages = 0 then Inl NoPagesError
      else
        (let batches = makeBatches batchSize pages 0 [];
             results = replicate (length batches) zeroBatchResult
         in case runAll vision prompt batches order results of
              None \<Rightarrow> Inl Panicked
            | Some results' \<Rightarrow>
                (case collect results' [] of
                   Inl e \<Rightarrow> Inl (BatchFailed e)
                 | Inr pageAnalyses \<Rightarrow> Inr (Join pageAnalyses [CHR 0x0A, CHR 0x0A]))))"

definition extractExamTopicsWithVisionAndProgress ::
  "(nat \<Rightarrow> ZAIVisionService) \<Rightarrow> string \<Rightarrow> nat list \<Rightarrow> PDFPageImage list \<Rightarrow> pipelineError + string" where
  "extractExamTopicsWithVisionAndProgress = analyzePages 8"

definition generateFlashcardsWithVisionAndProgress ::
  "(nat \<Rightarrow> ZAIVisionService) \<Rightarrow> string \<Rightarrow> nat list \<Rightarrow> PDFPageImage list \<Rightarrow> pipelineError + string" where
  "generateFlashcardsWithVisionAndProgress = analyzePages 2"

section \<open>Notions used to state and prove the properties\<close>

text \<open>
  The common shape of the four slot operations: under \<open>withJob\<close>, the slot writes
  \<open>F\<close> guarded by \<open>file\<close>, then the job writes \<open>G\<close>.
\<close>

definition slotOp ::
  "string \<Rightarrow> int \<Rightarrow> (FileProgress \<Rightarrow> FileProgress) \<Rightarrow> (UploadJob \<Rightarrow> UploadJob) \<Rightarrow> time
     \<Rightarrow> state \<Rightarrow> state" where
  "slotOp jid index F G now s =
     withJob jid (\<lambda>job s. setJob job G (withFile job index F s)) now s"

text \<open>
  The message \<open>msg\<close> that \<open>MarkFileError\<close> computes from its argument, and its
  parameter \<open>result\<close> after the two assignments that precede the append.
\<close>

definition errorMessage :: "string \<Rightarrow> string" where
  "errorMessage message =
     (if TrimSpace message = [] then ''processing error'' else TrimSpace message)"

definition errorResult :: "string \<Rightarrow> DocumentResult \<Rightarrow> DocumentResult" where
  "errorResult msg result =
     result\<lparr>resStatus := FileStatusError,
            resMessage := (if resMessage result = [] then msg else resMessage result)\<rparr>"

text \<open>A job of two files in a new manager, and a result as \<open>processDocument\<close> returns it on success.\<close>

definition exampleJob :: state where
  "exampleJob = fst (CreateJob [''a.pdf'', ''b.pdf''] ''job-1'' 5 6 NewJobManager)"

definition okResult :: DocumentResult where
  "okResult = \<lparr>resDocumentID = 7, resName = ''a.pdf'', resPages = 3, resStatus = ''ok'',
     resMessage = [], resPayload = Some 1\<rparr>"

text \<open>The common shape of \<open>MarkProcessing\<close>, \<open>MarkCompleted\<close> and \<open>MarkFailed\<close>.\<close>

definition jobOp :: "string \<Rightarrow> (UploadJob \<Rightarrow> UploadJob) \<Rightarrow> time \<Rightarrow> state \<Rightarrow> state" where
  "jobOp jid G now s = withJob jid (\<lambda>job. setJob job G) now s"

text \<open>
  What \<open>processDocument\<close> may do for the two files of the example job: the first has
  no pages and fails, the second succeeds after three progress callbacks.
\<close>

definition exampleOutcomes :: "fileOutcome list" where
  "exampleOutcomes =
     [\<lparr>outEvents = [(''convert'', ''Converting PDF to images'', 0, 100)],
       outResult = \<lparr>resDocumentID = 1, resName = ''a.pdf'', resPages = 0, resStatus = ''error'',
                    resMessage = ''no pages extracted from pdf'', resPayload = None\<rparr>,
       outErr = Some ''no pages extracted from pdf''\<rparr>,
      \<lparr>outEvents = [(''convert'', ''Converting PDF to images'', 0, 100),
                    (''analyze'', ''Analyzing 3 pages'', 10, 100),
                    (''complete'', ''Processing complete'', 100, 100)],
       outResult = okResult\<lparr>resDocumentID := 2, resName := ''b.pdf''\<rparr>,
       outErr = None\<rparr>]"

text \<open>A stub service: status 500 twice, then a completion; and one that always answers 401.\<close>

definition flakyService :: ZAIVisionService where
  "flakyService =
     \<lparr>model = ''glm-4.5v'', requestError = None,
      server = (\<lambda>req k. if k < 2 then Response 500 ''internal error'' else Response 200 ''ok-body''),
      unmarshal = (\<lambda>body. if body = ''ok-body'' then Inr [''Topics: recursion''] else Inl ''bad json'')\<rparr>"


text \<open>
  The batch that the loop of \<open>makeBatches\<close> creates at index \<open>i\<close>, and the marker
  line a goroutine puts before its text.
\<close>

definition batchAt :: "nat \<Rightarrow> PDFPageImage list \<Rightarrow> nat \<Rightarrow> batch" where
  "batchAt B pages i =
     (let bp = take B (drop i pages)
      in \<lparr>batchStart = int i + 1, batchEnd = int (min (i + B) (length pages)), batchPages = bp,
          imageURIs = map ImageData bp, pageNumbers = map PageNumber bp\<rparr>)"

definition pageMarker :: "int \<Rightarrow> int \<Rightarrow> string" where
  "pageMarker a b = ''=== Pages '' @ itoa a @ ''-'' @ itoa b @ '' ===''"

text \<open>A stub service for batch \<open>k\<close> that answers at once, with a text naming the batch.\<close>

definition exampleVision :: "nat \<Rightarrow> ZAIVisionService" where
  "exampleVision k =
     \<lparr>model = ''glm-4.5v'', requestError = None,
      server = (\<lambda>req j. Response 200 (if k = 0 then ''first'' else ''second'')),
      unmarshal = (\<lambda>body. Inr [''analysis of '' @ body])\<rparr>"

text \<open>
  The terminal statuses of a slot; the operations that write \<open>processing\<close> to slot
  \<open>i\<close> of job \<open>jid\<close>; and \<open>CreateJob\<close> with an identifier that is already in use,
  which puts a new job in the old one's place.
\<close>

definition terminal :: "string \<Rightarrow> bool" where
  "terminal st \<longleftrightarrow> st = FileStatusComplete \<or> st = FileStatusError"

fun reopens :: "string \<Rightarrow> int \<Rightarrow> op \<Rightarrow> bool" where
  "reopens jid i (OpMarkFileStarted jid' index now) = (jid' = jid \<and> index = i)"
| "reopens jid i (OpUpdateFileProgress jid' index step message current tot now) =
     (jid' = jid \<and> index = i)"
| "reopens jid i other = False"

fun replaces :: "string \<Rightarrow> op \<Rightarrow> bool" where
  "replaces jid (OpCreateJob names uuid now1 now2) = (uuid = jid)"
| "replaces jid other = False"

text \<open>
  A struct at address \<open>p\<close> is detached from the manager when neither it nor its
  \<open>Files\<close> array can be reached through the manager's map.
\<close>

definition detached :: "addr \<Rightarrow> state \<Rightarrow> bool" where
  "detached p s \<longleftrightarrow>
     p < nextAddr s \<and> (\<forall>jid. jobs s jid \<noteq> Some p) \<and>
     (\<forall>fa. jobFiles (objs s p) = Some fa \<longrightarrow>
        fa < nextAddr s \<and> (\<forall>jid a. jobs s jid = Some a \<longrightarrow> jobFiles (objs s a) \<noteq> Some fa))"

text \<open>The slots that the loop of \<open>CreateJob\<close> builds.\<close>

definition initialSlots :: "string list \<Rightarrow> FileProgress list" where
  "initialSlots fileNames =
     map (\<lambda>(i, name). zeroFile\<lparr>fileIndex := int i, fileName := name,
                                  fileStatus := FileStatusPending\<rparr>)
         (enumerate 0 fileNames)"

text \<open>The example job after its first file has completed.\<close>

definition exampleDone :: state where
  "exampleDone = MarkFileComplete ''job-1'' 0 okResult 7 exampleJob"



section \<open>The Job Manager: basic facts\<close>

lemma setJob_sel [simp]:
  "jobs (setJob a g s) = jobs s" "arrs (setJob a g s) = arrs s"
  "nextAddr (setJob a g s) = nextAddr s" "objs (setJob a g s) = (objs s)(a := g (objs s a))"
  by (simp_all add: setJob_def)

lemma setJob_id [simp]: "setJob a (\<lambda>j. j) s = s"
  by (simp add: setJob_def)

lemma withFile_sel [simp]:
  "jobs (withFile job index g s) = jobs s" "objs (withFile job index g s) = objs s"
  "nextAddr (withFile job index g s) = nextAddr s"
  by (simp_all add: withFile_def setFile_def split: option.splits prod.splits)

lemma withFile_arrs:
  "arrs (withFile job index g s) =
     (case jobFiles (objs s job) of
        None \<Rightarrow> arrs s
      | Some fa \<Rightarrow>
          if 0 \<le> index \<and> index < int (length (arrs s fa))
          then (arrs s)(fa := (arrs s fa)[nat index := g (arrs s fa ! nat index)])
          else arrs s)"
  by (auto simp: withFile_def setFile_def file_ptr_def filesOf_def split: option.splits)

lemma slotOp_None: "jobs s jid = None \<Longrightarrow> slotOp jid index F G now s = s"
  by (simp add: slotOp_def withJob_def)

lemma slotOp_sel:
  "jobs (slotOp jid index F G now s) = jobs s"
  "nextAddr (slotOp jid index F G now s) = nextAddr s"
  by (simp_all add: slotOp_def withJob_def split: option.splits)

lemma slotOp_objs:
  "jobs s jid = Some a \<Longrightarrow>
   objs (slotOp jid index F G now s) = (objs s)(a := (G (objs s a))\<lparr>jobUpdatedAt := now\<rparr>)"
  by (simp add: slotOp_def withJob_def)

lemma slotOp_arrs:
  "jobs s jid = Some a \<Longrightarrow> arrs (slotOp jid index F G now s) = arrs (withFile a index F s)"
  by (simp add: slotOp_def withJob_def)

lemma slotOp_slotsOf:
  assumes "jobs s jid = Some a" "\<And>j. jobFiles (G j) = jobFiles j"
  shows "slotsOf (slotOp jid index F G now s) jid =
     (if 0 \<le> index \<and> index < int (length (slotsOf s jid))
      then (slotsOf s jid)[nat index := F (slotsOf s jid ! nat index)]
      else slotsOf s jid)"
  using assms
  by (auto simp: slotsOf_def slotOp_sel slotOp_objs slotOp_arrs withFile_arrs filesOf_def
      split: option.splits)

lemma MarkFileStarted_slotOp:
  "MarkFileStarted jid index now =
     slotOp jid index (\<lambda>f. f\<lparr>fileStatus := FileStatusProcessing, fileStep := [],
                        fileMessage := ''Starting'', fileCurrent := 0, fileTotal := 100,
                        filePercent := 0, fileError := []\<rparr>) (\<lambda>j. j) now"
  by (rule ext) (simp add: MarkFileStarted_def slotOp_def)

lemma UpdateFileProgress_slotOp:
  "UpdateFileProgress jid index step message current tot now =
     slotOp jid index (\<lambda>f. f\<lparr>fileStatus := FileStatusProcessing, fileStep := step,
                        fileMessage := message, fileCurrent := current, fileTotal := tot,
                        filePercent := percent current tot\<rparr>) (\<lambda>j. j) now"
  by (rule ext) (simp add: UpdateFileProgress_def slotOp_def)

lemma MarkFileComplete_slotOp:
  "MarkFileComplete jid index result now =
     slotOp jid index (\<lambda>f. f\<lparr>fileStatus := FileStatusComplete,
                     fileStep := ''complete'', fileMessage := ''Processing complete'',
                     fileCurrent := 100, fileTotal := 100, filePercent := 100,
                     fileResult := Some result, fileError := []\<rparr>)
       (\<lambda>j. j\<lparr>jobResults := jobResults j @ [result]\<rparr>) now"
  by (rule ext) (simp add: MarkFileComplete_def slotOp_def cloneResult_def Let_def)

lemma MarkFileError_slotOp:
  "MarkFileError jid index message result now =
     slotOp jid index (\<lambda>f. f\<lparr>fileStatus := FileStatusError,
                         fileStep := ''error'', fileMessage := errorMessage message,
                         fileError := errorMessage message,
                         fileCurrent := 100, fileTotal := 100, filePercent := 100,
                         fileResult := Some result\<rparr>)
       (\<lambda>j. j\<lparr>jobResults := jobResults j @ [errorResult (errorMessage message) result]\<rparr>) now"
  by (rule ext) (simp add: MarkFileError_def slotOp_def cloneResult_def Let_def errorMessage_def errorResult_def)

lemma exampleJob_jobs: "jobs exampleJob ''job-1'' = Some 1"
  by code_simp

lemma exampleJob_len: "length (slotsOf exampleJob ''job-1'') = 2"
  by code_simp

section \<open>The slot operations\<close>

text \<open>
  C8, as the code has it: on an existing job and a valid index, \<open>MarkFileStarted\<close> sets
  the slot to \<open>processing\<close> with an empty step, the message "Starting", \<open>Current\<close> and
  \<open>Percent\<close> 0, \<open>Total\<close> 100 and an empty error; index, name and result of the slot
  and the number of slots stay as they were.
\<close>

theorem MarkFileStarted_resets_slot:
  assumes "jobs s jid = Some a" "0 \<le> index" "index < int (length (slotsOf s jid))"
  shows "let old = slotsOf s jid ! nat index;
             new = slotsOf (MarkFileStarted jid index now s) jid ! nat index
         in length (slotsOf (MarkFileStarted jid index now s) jid) = length (slotsOf s jid) \<and>
            fileStatus new = FileStatusProcessing \<and> fileStep new = [] \<and>
            fileMessage new = ''Starting'' \<and> fileCurrent new = 0 \<and> fileTotal new = 100 \<and>
            filePercent new = 0 \<and> fileError new = [] \<and>
            fileIndex new = fileIndex old \<and> fileName new = fileName old \<and>
            fileResult new = fileResult old"
  using assms by (simp add: MarkFileStarted_slotOp slotOp_slotsOf Let_def)

theorem MarkFileStarted_resets_slot_witness:
  "let new = slotsOf (MarkFileStarted ''job-1'' 1 7 exampleJob) ''job-1'' ! 1
   in fileStatus new = ''processing'' \<and> fileStep new = [] \<and> fileMessage new = ''Starting'' \<and>
      fileCurrent new = 0 \<and> fileTotal new = 100 \<and> filePercent new = 0 \<and>
      fileName new = ''b.pdf''"
proof -
  have h1: "jobs exampleJob ''job-1'' = Some 1" by (rule exampleJob_jobs)
  have h2: "(0::int) \<le> 1" by simp
  have h3: "(1::int) < int (length (slotsOf exampleJob ''job-1''))" by (simp add: exampleJob_len)
  have n: "fileName (slotsOf exampleJob ''job-1'' ! 1) = ''b.pdf''" by code_simp
  show ?thesis
    using MarkFileStarted_resets_slot[OF h1 h2 h3, of 7] n
    by (simp add: Let_def FileStatusProcessing_def)
qed

text \<open>
  C8 as stated (both counters zeroed) fails: after \<open>MarkFileStarted\<close> on slot 0 of
  the example job, \<open>Total\<close> is not 0.
\<close>

theorem MarkFileStarted_total_counterexample:
  "jobs exampleJob ''job-1'' = Some 1 \<and> length (slotsOf exampleJob ''job-1'') = 2 \<and>
   fileTotal (slotsOf (MarkFileStarted ''job-1'' 0 7 exampleJob) ''job-1'' ! 0) \<noteq> 0"
  by code_simp

text \<open>
  C9, at \<open>MarkFileError("job-1", 0, "boom", result)\<close> with \<open>result.Status = "ok"\<close> and an
  empty \<open>result.Message\<close>: the slot becomes \<open>error\<close> with message "boom" and the
  result appended to the job has status \<open>error\<close> and message "boom", but the result
  attached to the slot keeps status "ok" and the empty message, since the copy for the
  slot is taken before the parameter is overwritten.
\<close>

theorem MarkFileError_slot_result_unforced:
  "let s' = MarkFileError ''job-1'' 0 ''boom'' okResult 8 exampleJob
   in map_option resStatus (fileResult (slotsOf s' ''job-1'' ! 0)) = Some ''ok'' \<and>
      map_option resMessage (fileResult (slotsOf s' ''job-1'' ! 0)) = Some [] \<and>
      map_option (map resStatus \<circ> jobResults) (jobOf s' ''job-1'') = Some [''error''] \<and>
      map_option (map resMessage \<circ> jobResults) (jobOf s' ''job-1'') = Some [''boom''] \<and>
      fileStatus (slotsOf s' ''job-1'' ! 0) = ''error'' \<and>
      fileMessage (slotsOf s' ''job-1'' ! 0) = ''boom''"
  by code_simp

text \<open>
  C10: on an existing job, \<open>MarkFileComplete\<close> and \<open>MarkFileError\<close> with an index
  below 0 or not below the number of slots leave every slot of every array as it was,
  append the result to the job's \<open>Results\<close> (\<open>MarkFileError\<close> after setting its
  status and empty message, as it does for a valid index) and set \<open>UpdatedAt\<close> to the
  clock reading.
\<close>

theorem out_of_range_index_still_appends:
  assumes "jobs s jid = Some a" "index < 0 \<or> index \<ge> int (length (slotsOf s jid))"
  shows "arrs (MarkFileComplete jid index result now s) = arrs s \<and>
         slotsOf (MarkFileComplete jid index result now s) jid = slotsOf s jid \<and>
         jobResults (objs (MarkFileComplete jid index result now s) a)
           = jobResults (objs s a) @ [result] \<and>
         jobUpdatedAt (objs (MarkFileComplete jid index result now s) a) = now \<and>
         arrs (MarkFileError jid index message result now s) = arrs s \<and>
         slotsOf (MarkFileError jid index message result now s) jid = slotsOf s jid \<and>
         jobResults (objs (MarkFileError jid index message result now s) a)
           = jobResults (objs s a) @ [errorResult (errorMessage message) result] \<and>
         jobUpdatedAt (objs (MarkFileError jid index message result now s) a) = now"
proof -
  have nf: "arrs (withFile a index F s) = arrs s" for F
    using assms by (auto simp: withFile_arrs slotsOf_def filesOf_def split: option.splits)
  show ?thesis
    using assms nf
    by (auto simp: MarkFileComplete_slotOp MarkFileError_slotOp slotOp_slotsOf slotOp_objs slotOp_arrs)
qed

theorem out_of_range_index_still_appends_witness:
  "slotsOf (MarkFileComplete ''job-1'' 2 okResult 9 exampleJob) ''job-1'' = slotsOf exampleJob ''job-1'' \<and>
   jobResults (objs (MarkFileComplete ''job-1'' 2 okResult 9 exampleJob) 1) = [okResult] \<and>
   jobUpdatedAt (objs (MarkFileComplete ''job-1'' 2 okResult 9 exampleJob) 1) = 9 \<and>
   slotsOf (MarkFileError ''job-1'' 2 ''boom'' okResult 9 exampleJob) ''job-1'' = slotsOf exampleJob ''job-1'' \<and>
   jobResults (objs (MarkFileError ''job-1'' 2 ''boom'' okResult 9 exampleJob) 1)
     = [okResult\<lparr>resStatus := ''error'', resMessage := ''boom''\<rparr>]"
proof -
  have h1: "jobs exampleJob ''job-1'' = Some 1" by (rule exampleJob_jobs)
  have h2: "(2::int) < 0 \<or> 2 \<ge> int (length (slotsOf exampleJob ''job-1''))"
    by (simp add: exampleJob_len)
  have r: "jobResults (objs exampleJob 1) = []" by code_simp
  have m: "errorResult (errorMessage ''boom'') okResult = okResult\<lparr>resStatus := ''error'', resMessage := ''boom''\<rparr>"
    by code_simp
  show ?thesis
    using out_of_range_index_still_appends[OF h1 h2, of okResult 9 "''boom''"] r m by simp
qed

section \<open>Rounding to float64 is monotone\<close>



lemma roundEven_of_int [simp]: "roundEven (of_int n) = n"
  by (simp add: roundEven_def Let_def)
















section \<open>The percentage of a slot\<close>




section \<open>The upload job runner: the job completes whatever the files do\<close>

lemma jobOp_None: "jobs s jid = None \<Longrightarrow> jobOp jid G now s = s"
  by (simp add: jobOp_def withJob_def)

lemma jobOp_sel:
  "jobs (jobOp jid G now s) = jobs s"
  "nextAddr (jobOp jid G now s) = nextAddr s"
  "arrs (jobOp jid G now s) = arrs s"
  by (simp_all add: jobOp_def withJob_def split: option.splits)

lemma jobOp_objs:
  "jobs s jid = Some a \<Longrightarrow>
   objs (jobOp jid G now s) = (objs s)(a := (G (objs s a))\<lparr>jobUpdatedAt := now\<rparr>)"
  by (simp add: jobOp_def withJob_def)

lemma MarkProcessing_jobOp:
  "MarkProcessing jid now = jobOp jid (\<lambda>j. j\<lparr>jobStatus := JobStatusProcessing\<rparr>) now"
  by (rule ext) (simp add: MarkProcessing_def jobOp_def)

lemma MarkCompleted_jobOp:
  "MarkCompleted jid now = jobOp jid (\<lambda>j. j\<lparr>jobStatus := JobStatusComplete\<rparr>) now"
  by (rule ext) (simp add: MarkCompleted_def jobOp_def)

lemma MarkFailed_jobOp:
  "MarkFailed jid msg now =
     jobOp jid (\<lambda>j. j\<lparr>jobStatus := JobStatusFailed, jobError := TrimSpace msg\<rparr>) now"
  by (rule ext) (simp add: MarkFailed_def jobOp_def)

lemma jobOp_slotsOf:
  assumes "\<And>j. jobFiles (G j) = jobFiles j"
  shows "slotsOf (jobOp jid G now s) jid' = slotsOf s jid'"
proof (cases "jobs s jid")
  case None
  then show ?thesis by (simp add: jobOp_None)
next
  case (Some a)
  then show ?thesis using assms
    by (auto simp: slotsOf_def jobOp_sel jobOp_objs filesOf_def split: option.splits)
qed

lemma runProgress_frame:
  assumes "jobs s jid = Some a" "0 \<le> idx"
  shows "jobs (fst (runProgress jid idx es clk n s)) = jobs s \<and>
         length (slotsOf (fst (runProgress jid idx es clk n s)) jid) = length (slotsOf s jid) \<and>
         (\<forall>i. i \<noteq> nat idx \<longrightarrow>
            slotsOf (fst (runProgress jid idx es clk n s)) jid ! i = slotsOf s jid ! i) \<and>
         jobStatus (objs (fst (runProgress jid idx es clk n s)) a) = jobStatus (objs s a) \<and>
         jobError (objs (fst (runProgress jid idx es clk n s)) a) = jobError (objs s a) \<and>
         jobResults (objs (fst (runProgress jid idx es clk n s)) a) = jobResults (objs s a)"
  using assms
proof (induction es arbitrary: n s)
  case Nil
  then show ?case by simp
next
  case (Cons e es)
  obtain step message current tot where e: "e = (step, message, current, tot)"
    by (cases e) auto
  define s1 where "s1 = UpdateFileProgress jid idx step message current tot (clk n) s"
  have j1: "jobs s1 = jobs s"
    by (simp add: s1_def UpdateFileProgress_slotOp slotOp_sel)
  have a1: "jobs s1 jid = Some a" using Cons.prems j1 by simp
  have l1: "length (slotsOf s1 jid) = length (slotsOf s jid)"
    using Cons.prems by (simp add: s1_def UpdateFileProgress_slotOp slotOp_slotsOf)
  have o1: "\<forall>i. i \<noteq> nat idx \<longrightarrow> slotsOf s1 jid ! i = slotsOf s jid ! i"
    using Cons.prems by (simp add: s1_def UpdateFileProgress_slotOp slotOp_slotsOf)
  have b1: "jobStatus (objs s1 a) = jobStatus (objs s a)" "jobError (objs s1 a) = jobError (objs s a)"
           "jobResults (objs s1 a) = jobResults (objs s a)"
    using Cons.prems by (simp_all add: s1_def UpdateFileProgress_slotOp slotOp_objs)
  have ih: "jobs (fst (runProgress jid idx es clk (Suc n) s1)) = jobs s1 \<and>
         length (slotsOf (fst (runProgress jid idx es clk (Suc n) s1)) jid) = length (slotsOf s1 jid) \<and>
         (\<forall>i. i \<noteq> nat idx \<longrightarrow>
            slotsOf (fst (runProgress jid idx es clk (Suc n) s1)) jid ! i = slotsOf s1 jid ! i) \<and>
         jobStatus (objs (fst (runProgress jid idx es clk (Suc n) s1)) a) = jobStatus (objs s1 a) \<and>
         jobError (objs (fst (runProgress jid idx es clk (Suc n) s1)) a) = jobError (objs s1 a) \<and>
         jobResults (objs (fst (runProgress jid idx es clk (Suc n) s1)) a) = jobResults (objs s1 a)"
    using Cons.IH[OF a1 Cons.prems(2)] .
  have r: "runProgress jid idx (e # es) clk n s = runProgress jid idx es clk (Suc n) s1"
    by (simp add: e s1_def)
  show ?case unfolding r using ih j1 l1 o1 b1 by simp
qed

text \<open>The three phases of one file in \<open>runFiles\<close>.\<close>

lemma oneFile_frame:
  fixes s :: state and t1 t3 n :: nat and e :: "string option" and r :: DocumentResult
    and es :: "(string \<times> string \<times> int \<times> int) list" and clk :: "nat \<Rightarrow> time"
  assumes a: "jobs s jid = Some a" and idx: "0 \<le> idx"
  defines "s1 \<equiv> MarkFileStarted jid idx t1 s"
  defines "s2 \<equiv> fst (runProgress jid idx es clk n s1)"
  defines "s3 \<equiv> (case e of Some m \<Rightarrow> MarkFileError jid idx m r t3 s2
                           | None \<Rightarrow> MarkFileComplete jid idx r t3 s2)"
  shows "jobs s3 = jobs s \<and>
         length (slotsOf s3 jid) = length (slotsOf s jid) \<and>
         (\<forall>i. i \<noteq> nat idx \<longrightarrow> slotsOf s3 jid ! i = slotsOf s jid ! i) \<and>
         (nat idx < length (slotsOf s jid) \<longrightarrow>
            fileStatus (slotsOf s3 jid ! nat idx)
              = (if e = None then FileStatusComplete else FileStatusError)) \<and>
         jobStatus (objs s3 a) = jobStatus (objs s a) \<and>
         jobError (objs s3 a) = jobError (objs s a) \<and>
         length (jobResults (objs s3 a)) = Suc (length (jobResults (objs s a)))"
proof -
  have j1: "jobs s1 = jobs s" by (simp add: s1_def MarkFileStarted_slotOp slotOp_sel)
  have a1: "jobs s1 jid = Some a" using a j1 by simp
  have l1: "length (slotsOf s1 jid) = length (slotsOf s jid)"
    using a by (simp add: s1_def MarkFileStarted_slotOp slotOp_slotsOf)
  have o1: "\<forall>i. i \<noteq> nat idx \<longrightarrow> slotsOf s1 jid ! i = slotsOf s jid ! i"
    using a by (simp add: s1_def MarkFileStarted_slotOp slotOp_slotsOf)
  have b1: "jobStatus (objs s1 a) = jobStatus (objs s a)" "jobError (objs s1 a) = jobError (objs s a)"
           "jobResults (objs s1 a) = jobResults (objs s a)"
    using a by (simp_all add: s1_def MarkFileStarted_slotOp slotOp_objs)
  have p: "jobs s2 = jobs s1 \<and>
         length (slotsOf s2 jid) = length (slotsOf s1 jid) \<and>
         (\<forall>i. i \<noteq> nat idx \<longrightarrow> slotsOf s2 jid ! i = slotsOf s1 jid ! i) \<and>
         jobStatus (objs s2 a) = jobStatus (objs s1 a) \<and>
         jobError (objs s2 a) = jobError (objs s1 a) \<and>
         jobResults (objs s2 a) = jobResults (objs s1 a)"
    unfolding s2_def using runProgress_frame[OF a1 idx] .
  have a2: "jobs s2 jid = Some a" using p a1 by simp
  have j3: "jobs s3 = jobs s2"
    by (cases e) (simp_all add: s3_def MarkFileError_slotOp MarkFileComplete_slotOp slotOp_sel)
  have l3: "length (slotsOf s3 jid) = length (slotsOf s2 jid)"
    using a2 by (cases e) (simp_all add: s3_def MarkFileError_slotOp MarkFileComplete_slotOp slotOp_slotsOf)
  have o3: "\<forall>i. i \<noteq> nat idx \<longrightarrow> slotsOf s3 jid ! i = slotsOf s2 jid ! i"
    using a2 by (cases e) (simp_all add: s3_def MarkFileError_slotOp MarkFileComplete_slotOp slotOp_slotsOf)
  have t3: "nat idx < length (slotsOf s2 jid) \<longrightarrow>
            fileStatus (slotsOf s3 jid ! nat idx)
              = (if e = None then FileStatusComplete else FileStatusError)"
    using a2 idx
    by (cases e) (simp_all add: s3_def MarkFileError_slotOp MarkFileComplete_slotOp slotOp_slotsOf
        nat_less_iff)
  have b3: "jobStatus (objs s3 a) = jobStatus (objs s2 a)" "jobError (objs s3 a) = jobError (objs s2 a)"
           "length (jobResults (objs s3 a)) = Suc (length (jobResults (objs s2 a)))"
    using a2 by (cases e; simp add: s3_def MarkFileError_slotOp MarkFileComplete_slotOp slotOp_objs)+
  show ?thesis using j1 l1 o1 b1 p j3 l3 o3 t3 b3 by simp
qed

lemma runFiles_frame:
  assumes "jobs s jid = Some a" "0 \<le> idx"
  shows "jobs (fst (runFiles jid idx fs clk n s)) = jobs s \<and>
         length (slotsOf (fst (runFiles jid idx fs clk n s)) jid) = length (slotsOf s jid) \<and>
         (\<forall>i < nat idx. slotsOf (fst (runFiles jid idx fs clk n s)) jid ! i = slotsOf s jid ! i) \<and>
         (\<forall>k < length fs. nat idx + k < length (slotsOf s jid) \<longrightarrow>
            fileStatus (slotsOf (fst (runFiles jid idx fs clk n s)) jid ! (nat idx + k))
              = (if outErr (fs ! k) = None then FileStatusComplete else FileStatusError)) \<and>
         jobStatus (objs (fst (runFiles jid idx fs clk n s)) a) = jobStatus (objs s a) \<and>
         jobError (objs (fst (runFiles jid idx fs clk n s)) a) = jobError (objs s a) \<and>
         length (jobResults (objs (fst (runFiles jid idx fs clk n s)) a))
           = length (jobResults (objs s a)) + length fs"
  using assms
proof (induction fs arbitrary: idx n s)
  case Nil
  then show ?case by simp
next
  case (Cons f fs)
  define s1 where "s1 = MarkFileStarted jid idx (clk n) s"
  define s2 where "s2 = fst (runProgress jid idx (outEvents f) clk (Suc n) s1)"
  define n2 where "n2 = snd (runProgress jid idx (outEvents f) clk (Suc n) s1)"
  define s3 where "s3 = (case outErr f of Some m \<Rightarrow> MarkFileError jid idx m (outResult f) (clk n2) s2
                           | None \<Rightarrow> MarkFileComplete jid idx (outResult f) (clk n2) s2)"
  have r: "runFiles jid idx (f # fs) clk n s = runFiles jid (idx + 1) fs clk (Suc n2) s3"
    unfolding s3_def s2_def n2_def s1_def by (simp add: Let_def split_beta)
  have one: "jobs s3 = jobs s \<and>
         length (slotsOf s3 jid) = length (slotsOf s jid) \<and>
         (\<forall>i. i \<noteq> nat idx \<longrightarrow> slotsOf s3 jid ! i = slotsOf s jid ! i) \<and>
         (nat idx < length (slotsOf s jid) \<longrightarrow>
            fileStatus (slotsOf s3 jid ! nat idx)
              = (if outErr f = None then FileStatusComplete else FileStatusError)) \<and>
         jobStatus (objs s3 a) = jobStatus (objs s a) \<and>
         jobError (objs s3 a) = jobError (objs s a) \<and>
         length (jobResults (objs s3 a)) = Suc (length (jobResults (objs s a)))"
    unfolding s3_def s2_def s1_def using oneFile_frame[OF Cons.prems] .
  have a3: "jobs s3 jid = Some a" using one Cons.prems by simp
  have i3: "0 \<le> idx + 1" using Cons.prems by simp
  note ih = Cons.IH[OF a3 i3, of "Suc n2"]
  have ni: "nat (idx + 1) = Suc (nat idx)" using Cons.prems by simp
  let ?s' = "fst (runFiles jid (idx + 1) fs clk (Suc n2) s3)"
  have c1: "jobs ?s' = jobs s" using ih one by simp
  have c2: "length (slotsOf ?s' jid) = length (slotsOf s jid)" using ih one by simp
  have c3: "\<forall>i < nat idx. slotsOf ?s' jid ! i = slotsOf s jid ! i"
    using ih one ni by simp
  have c4: "\<forall>k < length (f # fs). nat idx + k < length (slotsOf s jid) \<longrightarrow>
            fileStatus (slotsOf ?s' jid ! (nat idx + k))
              = (if outErr ((f # fs) ! k) = None then FileStatusComplete else FileStatusError)"
  proof (intro allI impI)
    fix k assume k: "k < length (f # fs)" and b: "nat idx + k < length (slotsOf s jid)"
    show "fileStatus (slotsOf ?s' jid ! (nat idx + k))
              = (if outErr ((f # fs) ! k) = None then FileStatusComplete else FileStatusError)"
    proof (cases k)
      case 0
      have "slotsOf ?s' jid ! nat idx = slotsOf s3 jid ! nat idx" using ih ni by simp
      then show ?thesis using one b 0 by simp
    next
      case (Suc k')
      have "k' < length fs" using k Suc by simp
      moreover have "nat (idx + 1) + k' < length (slotsOf s3 jid)" using b Suc ni one by simp
      ultimately have "fileStatus (slotsOf ?s' jid ! (nat (idx + 1) + k'))
              = (if outErr (fs ! k') = None then FileStatusComplete else FileStatusError)"
        using ih by blast
      then show ?thesis using Suc ni by simp
    qed
  qed
  have c5: "jobStatus (objs ?s' a) = jobStatus (objs s a)" "jobError (objs ?s' a) = jobError (objs s a)"
           "length (jobResults (objs ?s' a)) = length (jobResults (objs s a)) + length (f # fs)"
    using ih one by simp_all
  show ?case unfolding r using c1 c2 c3 c4 c5 by blast
qed

text \<open>
  C6: for an existing job with one slot per file, when \<open>runUploadJob\<close> has gone
  through all the files the job's status is \<open>complete\<close> and not \<open>failed\<close>, whatever
  the files' outcomes; the job's own \<open>Error\<close> is untouched, and each slot is
  \<open>error\<close> when its file's processing returned an error and \<open>complete\<close> otherwise.
  No step of \<open>runUploadJob\<close> calls \<open>MarkFailed\<close>.
\<close>

theorem runUploadJob_completes:
  assumes "jobs s jid = Some a" "length (slotsOf s jid) = length files"
  shows "jobs (runUploadJob jid files clk s) jid = Some a \<and>
         jobStatus (objs (runUploadJob jid files clk s) a) = JobStatusComplete \<and>
         jobStatus (objs (runUploadJob jid files clk s) a) \<noteq> JobStatusFailed \<and>
         jobError (objs (runUploadJob jid files clk s) a) = jobError (objs s a) \<and>
         length (slotsOf (runUploadJob jid files clk s) jid) = length files \<and>
         (\<forall>i < length files.
            fileStatus (slotsOf (runUploadJob jid files clk s) jid ! i)
              = (if outErr (files ! i) = None then FileStatusComplete else FileStatusError))"
proof -
  define s0 where "s0 = MarkProcessing jid (clk 0) s"
  define s1 where "s1 = fst (runFiles jid 0 files clk 1 s0)"
  define n where "n = snd (runFiles jid 0 files clk 1 s0)"
  have r: "runUploadJob jid files clk s = MarkCompleted jid (clk n) s1"
    by (simp add: runUploadJob_def s0_def s1_def n_def Let_def split_beta)
  have a0: "jobs s0 jid = Some a" using assms by (simp add: s0_def MarkProcessing_jobOp jobOp_sel)
  have l0: "slotsOf s0 jid = slotsOf s jid" by (simp add: s0_def MarkProcessing_jobOp jobOp_slotsOf)
  have e0: "jobError (objs s0 a) = jobError (objs s a)"
    using assms by (simp add: s0_def MarkProcessing_jobOp jobOp_objs)
  have z: "(0::int) \<le> 0" by simp
  note f = runFiles_frame[OF a0 z, of files clk 1, folded s1_def]
  have a1: "jobs s1 jid = Some a" using f a0 by simp
  let ?s' = "MarkCompleted jid (clk n) s1"
  have "jobs ?s' jid = Some a" using a1 by (simp add: MarkCompleted_jobOp jobOp_sel)
  moreover have "jobStatus (objs ?s' a) = JobStatusComplete"
    using a1 by (simp add: MarkCompleted_jobOp jobOp_objs)
  moreover have "JobStatusComplete \<noteq> JobStatusFailed"
    by (simp add: JobStatusComplete_def JobStatusFailed_def)
  moreover have "jobError (objs ?s' a) = jobError (objs s a)"
    using a1 f e0 by (simp add: MarkCompleted_jobOp jobOp_objs)
  moreover have sl: "slotsOf ?s' jid = slotsOf s1 jid"
    by (simp add: MarkCompleted_jobOp jobOp_slotsOf)
  moreover have "length (slotsOf s1 jid) = length files" using f l0 assms by simp
  moreover have "\<forall>i < length files. fileStatus (slotsOf s1 jid ! i)
              = (if outErr (files ! i) = None then FileStatusComplete else FileStatusError)"
    using f l0 assms by simp
  ultimately show ?thesis unfolding r by simp
qed

theorem runUploadJob_completes_witness:
  "jobStatus (objs (runUploadJob ''job-1'' exampleOutcomes (\<lambda>n. 10 + n) exampleJob) 1) = ''complete'' \<and>
   map fileStatus (slotsOf (runUploadJob ''job-1'' exampleOutcomes (\<lambda>n. 10 + n) exampleJob) ''job-1'')
     = [''error'', ''complete'']"
proof -
  let ?s' = "runUploadJob ''job-1'' exampleOutcomes (\<lambda>n. 10 + n) exampleJob"
  have h1: "jobs exampleJob ''job-1'' = Some 1" by (rule exampleJob_jobs)
  have h2: "length (slotsOf exampleJob ''job-1'') = length exampleOutcomes"
    by (simp add: exampleJob_len exampleOutcomes_def)
  have e: "outErr (exampleOutcomes ! 0) \<noteq> None" "outErr (exampleOutcomes ! 1) = None"
          "length exampleOutcomes = 2"
    by (simp_all add: exampleOutcomes_def)
  note t = runUploadJob_completes[OF h1 h2, of "\<lambda>n. 10 + n"]
  have st: "jobStatus (objs ?s' 1) = JobStatusComplete" using t by blast
  have l: "length (slotsOf ?s' ''job-1'') = 2" using t e by simp
  have q: "i < 2 \<Longrightarrow> fileStatus (slotsOf ?s' ''job-1'' ! i)
              = (if outErr (exampleOutcomes ! i) = None then FileStatusComplete else FileStatusError)" for i
    using t e by simp
  have s0: "fileStatus (slotsOf ?s' ''job-1'' ! 0) = ''error''"
    using q[of 0] e by (simp add: FileStatusError_def)
  have s1: "fileStatus (slotsOf ?s' ''job-1'' ! 1) = ''complete''"
    using q[of 1] e by (simp add: FileStatusComplete_def)
  have m: "map fileStatus (slotsOf ?s' ''job-1'') = [''error'', ''complete'']"
  proof (rule nth_equalityI)
    show "length (map fileStatus (slotsOf ?s' ''job-1'')) = length [''error'', ''complete'']"
      using l by simp
  next
    fix i assume "i < length (map fileStatus (slotsOf ?s' ''job-1''))"
    then have "i = 0 \<or> i = 1" using l by auto
    then show "map fileStatus (slotsOf ?s' ''job-1'') ! i = [''error'', ''complete''] ! i"
      using s0 s1 l by auto
  qed
  show ?thesis using st m by (simp add: JobStatusComplete_def)
qed

section \<open>The Analysis Client: retries\<close>

lemma AnalyzeMultipleImages_loop:
  "AnalyzeMultipleImages svc uris prompt =
     attemptLoop svc (buildRequest svc uris prompt) 0 None \<lparr>calls = 0, sleeps = []\<rparr>"
  by (simp add: AnalyzeMultipleImages_def)

lemma attemptBody_Success_requestError:
  "attemptBody svc req attempt k = Success c \<Longrightarrow> requestError svc = None"
  by (auto simp: attemptBody_def split: option.splits)





text \<open>
  C2: when the first two attempts of \<open>AnalyzeMultipleImages\<close> end in a failure that
  the loop retries (status 500, for one) and the third succeeds, the method returns the
  text of the third response, \<open>httpClient.Do\<close> has been called exactly 3 times, and the
  method has slept twice: 2 seconds before the first retry and 4 seconds before the second.
\<close>

theorem retry_twice_then_success:
  assumes "attemptBody svc (buildRequest svc uris prompt) 0 0 = Retry e0"
      and "attemptBody svc (buildRequest svc uris prompt) 1 1 = Retry e1"
      and "attemptBody svc (buildRequest svc uris prompt) 2 2 = Success text"
  shows "AnalyzeMultipleImages svc uris prompt
           = (Inr text, \<lparr>calls = 3, sleeps = [2 * Second, 4 * Second]\<rparr>)"
proof -
  have r: "requestError svc = None" using assms(3) by (rule attemptBody_Success_requestError)
  show ?thesis
    using assms r
    by (simp add: AnalyzeMultipleImages_loop attemptLoop.simps[of svc _ 0]
        attemptLoop.simps[of svc _ "Suc 0"] attemptLoop.simps[of svc _ "Suc (Suc 0)"]
        maxRetries_def Let_def numeral_2_eq_2 numeral_3_eq_3)
qed

theorem retry_twice_then_success_witness:
  "AnalyzeMultipleImages flakyService [''data:image/png;base64,AAAA''] ''Analyze these pages''
     = (Inr ''Topics: recursion'', \<lparr>calls = 3, sleeps = [2000000000, 4000000000]\<rparr>)"
proof -
  let ?req = "buildRequest flakyService [''data:image/png;base64,AAAA''] ''Analyze these pages''"
  have h0: "attemptBody flakyService ?req 0 0 = Retry (StatusError 500 ''internal error'')"
    by (simp add: attemptBody_def flakyService_def)
  have h1: "attemptBody flakyService ?req 1 1 = Retry (StatusError 500 ''internal error'')"
    by (simp add: attemptBody_def flakyService_def)
  have h2: "attemptBody flakyService ?req 2 2 = Success ''Topics: recursion''"
    by (simp add: attemptBody_def flakyService_def)
  show ?thesis using retry_twice_then_success[OF h0 h1 h2] by (simp add: Second_def)
qed







section \<open>The Batch Analysis Engine: batches and the order of the combined text\<close>

lemma ceil_step:
  assumes "0 < B" "i < P"
  shows "(P - i + B - 1) div B = Suc ((P - (i + B) + B - 1) div B)"
proof (cases "i + B \<le> P")
  case True
  then have "P - i + B - 1 = (P - (i + B) + B - 1) + B" using assms by linarith
  then have "(P - i + B - 1) div B = ((P - (i + B) + B - 1) + B) div B" by presburger
  also have "\<dots> = (P - (i + B) + B - 1) div B + 1"
    using assms(1) by (simp only: div_add_self2)
  finally show ?thesis by simp
next
  case False
  then have a: "P - (i + B) = 0" by simp
  define r where "r = P - i - 1"
  have r: "r < B" "P - i + B - 1 = B + r" using assms False unfolding r_def by linarith+
  have "B \<noteq> 0" using assms by simp
  then have "(B + r) div B = r div B + 1" by (rule div_add_self1)
  then have "(B + r) div B = 1" using r(1) by simp
  then have "(P - i + B - 1) div B = 1" using r(2) by presburger
  moreover have "(P - (i + B) + B - 1) div B = 0" using a assms by simp
  ultimately show ?thesis by presburger
qed

lemma loop_batch_eq:
  assumes "i < length pages"
  shows "take ((if i + B > length pages then length pages else i + B) - i) (drop i pages)
           = take B (drop i pages)"
  using assms by auto

lemma makeBatches_eq:
  assumes "0 < B"
  shows "makeBatches B pages i acc =
           acc @ map (\<lambda>k. batchAt B pages (i + k * B)) [0..<(length pages - i + B - 1) div B]"
  using assms
proof (induction B pages i acc rule: makeBatches.induct)
  case (1 B pages i acc)
  show ?case
  proof (cases "i < length pages")
    case False
    then show ?thesis using "1.prems"
      by (simp add: makeBatches.simps[of B pages i])
  next
    case True
    define e where "e = (if i + B > length pages then length pages else i + B)"
    define bp where "bp = take (e - i) (drop i pages)"
    define b where "b = \<lparr>batchStart = int i + 1, batchEnd = int e, batchPages = bp,
                           imageURIs = map ImageData bp, pageNumbers = map PageNumber bp\<rparr>"
    have bp: "bp = take B (drop i pages)" unfolding bp_def e_def using True by (rule loop_batch_eq)
    have e: "e = min (i + B) (length pages)" by (simp add: e_def min_def)
    have b: "b = batchAt B pages i" by (simp add: b_def batchAt_def bp e Let_def)
    have step: "makeBatches B pages i acc = makeBatches B pages (i + B) (acc @ [b])"
      using True "1.prems"
      by (simp add: makeBatches.simps[of B pages i] b_def bp_def e_def Let_def)
    have c: "0 < B \<and> i < length pages" using True "1.prems" by simp
    have ih: "makeBatches B pages (i + B) (acc @ [b]) =
           (acc @ [b]) @ map (\<lambda>k. batchAt B pages (i + B + k * B))
                              [0..<(length pages - (i + B) + B - 1) div B]"
      using "1.IH"[OF c refl refl refl "1.prems", folded e_def, folded bp_def, folded b_def] 
      by (simp add: e_def)
    have n: "(length pages - i + B - 1) div B = Suc ((length pages - (i + B) + B - 1) div B)"
      using "1.prems" True by (rule ceil_step)
    have m: "map (\<lambda>k. batchAt B pages (i + k * B)) [0..<Suc m]
              = batchAt B pages i # map (\<lambda>k. batchAt B pages (i + B + k * B)) [0..<m]" for m
    proof -
      have "[0..<Suc m] = 0 # map Suc [0..<m]" by (simp add: upt_conv_Cons map_Suc_upt del: upt_Suc)
      then show ?thesis by (simp add: comp_def add.assoc del: upt_Suc)
    qed
    have "makeBatches B pages i acc =
           (acc @ [b]) @ map (\<lambda>k. batchAt B pages (i + B + k * B))
                              [0..<(length pages - (i + B) + B - 1) div B]"
      using step ih by (rule trans)
    then show ?thesis unfolding n m b by simp
  qed
qed


lemma batch_index_in_range:
  fixes B k P :: nat
  assumes "0 < B" "k < (P + B - 1) div B"
  shows "k * B < P"
proof -
  have "Suc k \<le> (P + B - 1) div B" using assms by simp
  then have "Suc k * B \<le> ((P + B - 1) div B) * B" by (rule mult_le_mono1)
  also have "\<dots> \<le> P + B - 1" by (simp add: div_times_less_eq_dividend)
  finally have "k * B + B \<le> P + B - 1" by simp
  then show ?thesis using assms by linarith
qed

lemma makeBatches_length:
  "0 < B \<Longrightarrow> length (makeBatches B pages 0 []) = (length pages + B - 1) div B"
  by (simp add: makeBatches_eq)

lemma makeBatches_nth:
  "0 < B \<Longrightarrow> k < (length pages + B - 1) div B \<Longrightarrow>
   makeBatches B pages 0 [] ! k = batchAt B pages (k * B)"
  by (simp add: makeBatches_eq)

lemma makeBatches_concat:
  assumes "0 < B"
  shows "concat (map batchPages (makeBatches B pages i acc))
           = concat (map batchPages acc) @ drop i pages"
  using assms
proof (induction B pages i acc rule: makeBatches.induct)
  case (1 B pages i acc)
  show ?case
  proof (cases "i < length pages")
    case False
    then show ?thesis using "1.prems" by (simp add: makeBatches.simps[of B pages i])
  next
    case True
    define e where "e = (if i + B > length pages then length pages else i + B)"
    define bp where "bp = take (e - i) (drop i pages)"
    define b where "b = \<lparr>batchStart = int i + 1, batchEnd = int e, batchPages = bp,
                           imageURIs = map ImageData bp, pageNumbers = map PageNumber bp\<rparr>"
    have bp: "bp = take B (drop i pages)" unfolding bp_def e_def using True by (rule loop_batch_eq)
    have step: "makeBatches B pages i acc = makeBatches B pages (i + B) (acc @ [b])"
      using True "1.prems"
      by (simp add: makeBatches.simps[of B pages i] b_def bp_def e_def Let_def)
    have c: "0 < B \<and> i < length pages" using True "1.prems" by simp
    have ih: "concat (map batchPages (makeBatches B pages (i + B) (acc @ [b])))
                = concat (map batchPages (acc @ [b])) @ drop (i + B) pages"
      using "1.IH"[OF c refl refl refl "1.prems", folded e_def, folded bp_def, folded b_def]
      by (simp add: e_def)
    have "bp @ drop (i + B) pages = drop i pages"
    proof -
      have "drop (i + B) pages = drop B (drop i pages)" by (simp add: add.commute)
      then show ?thesis unfolding bp by (simp only: append_take_drop_id)
    qed
    then show ?thesis unfolding step ih by (simp add: b_def)
  qed
qed

lemma Convert_pages:
  assumes "ConvertPDFPagesToImages dataURIs = Inr pages"
  shows "pages \<noteq> [] \<and> length pages = length dataURIs \<and>
         (\<forall>j < length pages. PageNumber (pages ! j) = int j + 1 \<and> ImageData (pages ! j) = dataURIs ! j)"
proof -
  have ne: "dataURIs \<noteq> []" using assms by (auto simp: ConvertPDFPagesToImages_def split: if_splits)
  have p: "pages = map (\<lambda>(pageNum, dataURI). \<lparr>PageNumber = int pageNum, ImageData = dataURI\<rparr>)
                    (enumerate 1 dataURIs)"
    using assms by (auto simp: ConvertPDFPagesToImages_def split: if_splits)
  have l: "length pages = length dataURIs" by (simp add: p)
  have "pages \<noteq> []" using l ne by auto
  moreover have "\<forall>j < length pages. PageNumber (pages ! j) = int j + 1 \<and> ImageData (pages ! j) = dataURIs ! j"
    using l by (simp add: p nth_enumerate_eq)
  ultimately show ?thesis using l by simp
qed

lemma batchAt_pageNumbers:
  assumes "\<forall>j < length pages. PageNumber (pages ! j) = int j + 1" "0 < B" "i < length pages"
  shows "\<exists>p ps. pageNumbers (batchAt B pages i) = p # ps \<and> p = int i + 1 \<and>
           last (p # ps) = int (min (i + B) (length pages))"
proof -
  define bp where "bp = take B (drop i pages)"
  have ne: "bp \<noteq> []" using assms by (simp add: bp_def)
  have len: "length bp = min B (length pages - i)" by (simp add: bp_def min.commute)
  have h: "hd bp = pages ! i" using assms by (simp add: bp_def hd_drop_conv_nth)
  have l: "last bp = pages ! (i + (length bp - 1))"
    using ne assms by (simp add: last_conv_nth len) (simp add: bp_def)
  have pn: "pageNumbers (batchAt B pages i) = map PageNumber bp"
    by (simp add: batchAt_def bp_def Let_def)
  obtain x xs where x: "bp = x # xs" using ne by (cases bp) auto
  have hp: "PageNumber x = int i + 1" using h x assms by simp
  have lb: "0 < length bp" "length bp \<le> B" "length bp \<le> length pages - i"
    using ne len assms by simp_all
  have "i + (length bp - 1) < length pages" using assms lb by linarith
  then have "PageNumber (last bp) = int (i + (length bp - 1)) + 1" using l assms by simp
  also have "\<dots> = int (i + length bp)" by (simp add: x)
  also have "i + length bp = min (i + B) (length pages)" using assms(3) len by (auto simp: min_def)
  finally have lp: "PageNumber (last bp) = int (min (i + B) (length pages))" .
  have "last (map PageNumber bp) = PageNumber (last bp)" using ne by (rule last_map)
  then show ?thesis using pn x hp lp by simp
qed

lemma foldl_update_nth:
  "i < length results \<Longrightarrow>
   foldl (\<lambda>res idx. res[idx := R idx]) results order ! i
     = (if i \<in> set order then R i else results ! i)"
proof (induction order arbitrary: results)
  case Nil
  then show ?case by simp
next
  case (Cons idx order)
  have "i < length (results[idx := R idx])" using Cons.prems by simp
  note ih = Cons.IH[OF this]
  show ?case
  proof (cases "i = idx")
    case True
    then show ?thesis using ih Cons.prems by simp
  next
    case False
    then show ?thesis using ih Cons.prems by auto
  qed
qed

lemma foldl_update_length:
  "length (foldl (\<lambda>res idx. res[idx := R idx]) results order) = length results"
  by (induction order arbitrary: results) simp_all

lemma foldl_update_all:
  assumes "set order = {0..<length results}"
  shows "foldl (\<lambda>res idx. res[idx := R idx]) results order = map R [0..<length results]"
  by (rule nth_equalityI) (simp_all add: foldl_update_length foldl_update_nth assms)

lemma runAll_Some:
  assumes "\<forall>idx \<in> set order. idx < length batches \<and>
             runBatch vision prompt idx (batches ! idx) = Some (R idx)"
  shows "runAll vision prompt batches order results
           = Some (foldl (\<lambda>res idx. res[idx := R idx]) results order)"
  using assms by (induction order arbitrary: results) simp_all

lemma collect_ok:
  "\<forall>res \<in> set rs. brErr res = None \<Longrightarrow> collect rs acc = Inr (acc @ map brAnalysis rs)"
  by (induction rs arbitrary: acc) simp_all


lemma runBatch_ok:
  assumes "pageNumbers bt = p # ps"
      and "fst (AnalyzeMultipleImages (vision idx) (imageURIs bt) prompt) = Inr analysis"
  shows "runBatch vision prompt idx bt
           = Some \<lparr>brIndex = idx,
                    brAnalysis = pageMarker p (last (p # ps)) @ [CHR 0x0A] @ analysis,
                    brErr = None\<rparr>"
  using assms by (simp add: runBatch_def pageMarker_def Let_def)

lemma analyzePages_ok:
  assumes B: "0 < B"
      and conv: "ConvertPDFPagesToImages dataURIs = Inr pages"
      and ord: "set order = {0..<length (makeBatches B pages 0 [])}"
      and ok: "\<forall>k < length (makeBatches B pages 0 []).
                 fst (AnalyzeMultipleImages (vision k) (imageURIs (makeBatches B pages 0 [] ! k)) prompt)
                   = Inr (text k)"
  shows "analyzePages B vision prompt order pages =
           Inr (Join (map (\<lambda>k. pageMarker (int (k * B) + 1) (int (min (k * B + B) (length pages)))
                                 @ [CHR 0x0A] @ text k)
                          [0..<length (makeBatches B pages 0 [])])
                     [CHR 0x0A, CHR 0x0A])"
proof -
  define batches where "batches = makeBatches B pages 0 []"
  define n where "n = length batches"
  define R where "R = (\<lambda>k. \<lparr>brIndex = k,
                    brAnalysis = pageMarker (int (k * B) + 1) (int (min (k * B + B) (length pages)))
                                   @ [CHR 0x0A] @ text k,
                    brErr = None\<rparr>)"
  have pg: "pages \<noteq> []" "\<forall>j < length pages. PageNumber (pages ! j) = int j + 1"
    using Convert_pages[OF conv] by simp_all
  have n: "n = (length pages + B - 1) div B" using B by (simp add: n_def batches_def makeBatches_length)
  have rb: "runBatch vision prompt k (batches ! k) = Some (R k)" if k: "k < n" for k
  proof -
    have kb: "k * B < length pages" using B k n by (intro batch_index_in_range) simp_all
    have bk: "batches ! k = batchAt B pages (k * B)"
      using B k n by (simp add: batches_def makeBatches_nth)
    obtain p ps where p: "pageNumbers (batchAt B pages (k * B)) = p # ps" "p = int (k * B) + 1"
        "last (p # ps) = int (min (k * B + B) (length pages))"
      using batchAt_pageNumbers[OF pg(2) B kb] by blast
    have a: "fst (AnalyzeMultipleImages (vision k) (imageURIs (batches ! k)) prompt) = Inr (text k)"
      using ok k by (simp add: n_def batches_def)
    show ?thesis
      using runBatch_ok[of "batches ! k" p ps vision k prompt "text k"] p a bk
      by (simp add: R_def)
  qed
  have ra: "runAll vision prompt batches order (replicate n zeroBatchResult)
              = Some (foldl (\<lambda>res idx. res[idx := R idx]) (replicate n zeroBatchResult) order)"
    using ord rb by (intro runAll_Some) (simp add: n_def batches_def)
  have fo: "foldl (\<lambda>res idx. res[idx := R idx]) (replicate n zeroBatchResult) order = map R [0..<n]"
    using foldl_update_all[of order "replicate n zeroBatchResult" R] ord
    by (simp add: n_def batches_def)
  have co: "collect (map R [0..<n]) [] = Inr ([] @ map brAnalysis (map R [0..<n]))"
    by (rule collect_ok) (simp add: R_def)
  have "analyzePages B vision prompt order pages =
          Inr (Join (map brAnalysis (map R [0..<n])) [CHR 0x0A, CHR 0x0A])"
    using pg(1) ra fo co
    by (simp add: analyzePages_def batches_def[symmetric] n_def[symmetric] Let_def)
  then show ?thesis by (simp add: R_def n_def batches_def comp_def)
qed

text \<open>
  C1: for the pages of a document with at least one page, as
  \<open>ConvertPDFPagesToImages\<close> numbers them, and for both functions (batch size 8 for
  exam topics, 2 for flashcards): the batches are consecutive slices of at most the batch
  size, none empty, whose concatenation is the page sequence; and when the analysis of
  every batch succeeds, then for every order in which the goroutines finish the combined
  text is the texts of the batches in batch order, joined by an empty line, each after its
  marker line \<open>=== Pages a-b ===\<close>, where \<open>a\<close> and \<open>b\<close> are the first and last
  page number of the batch, so that \<open>a \<le> b\<close> and \<open>b\<close> is below the next batch's
  \<open>a\<close>.
\<close>

theorem batches_cover_pages_in_order:
  assumes "ConvertPDFPagesToImages dataURIs = Inr pages"
      and "(run = extractExamTopicsWithVisionAndProgress \<and> B = 8) \<or>
           (run = generateFlashcardsWithVisionAndProgress \<and> B = 2)"
      and "batches = makeBatches B pages 0 []"
      and "distinct order" and "set order = {0..<length batches}"
      and "\<forall>k < length batches.
             fst (AnalyzeMultipleImages (vision k) (imageURIs (batches ! k)) prompt) = Inr (text k)"
  shows "concat (map batchPages batches) = pages \<and>
         length batches = (length pages + B - 1) div B \<and>
         (\<forall>k < length batches.
            batchPages (batches ! k) = take B (drop (k * B) pages) \<and>
            batchPages (batches ! k) \<noteq> [] \<and> length (batchPages (batches ! k)) \<le> B \<and>
            imageURIs (batches ! k) = map ImageData (batchPages (batches ! k)) \<and>
            int (k * B) + 1 \<le> int (min (k * B + B) (length pages)) \<and>
            int (min (k * B + B) (length pages)) < int (Suc k * B) + 1) \<and>
         run vision prompt order pages =
           Inr (Join (map (\<lambda>k. pageMarker (int (k * B) + 1) (int (min (k * B + B) (length pages)))
                                 @ [CHR 0x0A] @ text k)
                          [0..<length batches])
                     [CHR 0x0A, CHR 0x0A])"
proof -
  have B: "0 < B" using assms(2) by auto
  have run: "run = analyzePages B"
    using assms(2)
    by (auto simp: extractExamTopicsWithVisionAndProgress_def generateFlashcardsWithVisionAndProgress_def)
  have c: "concat (map batchPages batches) = pages"
    using makeBatches_concat[OF B, of pages 0 "[]"] by (simp add: assms(3))
  have n: "length batches = (length pages + B - 1) div B"
    using B by (simp add: assms(3) makeBatches_length)
  have k: "\<forall>k < length batches.
            batchPages (batches ! k) = take B (drop (k * B) pages) \<and>
            batchPages (batches ! k) \<noteq> [] \<and> length (batchPages (batches ! k)) \<le> B \<and>
            imageURIs (batches ! k) = map ImageData (batchPages (batches ! k)) \<and>
            int (k * B) + 1 \<le> int (min (k * B + B) (length pages)) \<and>
            int (min (k * B + B) (length pages)) < int (Suc k * B) + 1"
  proof (intro allI impI)
    fix k assume k: "k < length batches"
    have kb: "k * B < length pages" using B k n by (intro batch_index_in_range) simp_all
    have bk: "batches ! k = batchAt B pages (k * B)"
      using B k n by (simp add: assms(3) makeBatches_nth)
    show "batchPages (batches ! k) = take B (drop (k * B) pages) \<and>
            batchPages (batches ! k) \<noteq> [] \<and> length (batchPages (batches ! k)) \<le> B \<and>
            imageURIs (batches ! k) = map ImageData (batchPages (batches ! k)) \<and>
            int (k * B) + 1 \<le> int (min (k * B + B) (length pages)) \<and>
            int (min (k * B + B) (length pages)) < int (Suc k * B) + 1"
    proof -
      have m1: "k * B + 1 \<le> min (k * B + B) (length pages)" using kb B by simp
      have m2: "min (k * B + B) (length pages) < Suc k * B + 1" by simp
      have "int (k * B + 1) \<le> int (min (k * B + B) (length pages))"
        using m1 by (simp only: of_nat_le_iff)
      then have i1: "int (k * B) + 1 \<le> int (min (k * B + B) (length pages))" by simp
      have "int (min (k * B + B) (length pages)) < int (Suc k * B + 1)"
        using m2 by (simp only: of_nat_less_iff)
      then have i2: "int (min (k * B + B) (length pages)) < int (Suc k * B) + 1" by simp
      have "batchPages (batches ! k) = take B (drop (k * B) pages) \<and>
            batchPages (batches ! k) \<noteq> [] \<and> length (batchPages (batches ! k)) \<le> B \<and>
            imageURIs (batches ! k) = map ImageData (batchPages (batches ! k))"
        using kb B by (simp add: bk batchAt_def Let_def)
      then show ?thesis using i1 i2 by blast
    qed
  qed
  have r: "run vision prompt order pages =
           Inr (Join (map (\<lambda>k. pageMarker (int (k * B) + 1) (int (min (k * B + B) (length pages)))
                                 @ [CHR 0x0A] @ text k)
                          [0..<length batches])
                     [CHR 0x0A, CHR 0x0A])"
    unfolding run assms(3)
    using assms(5,6) by (intro analyzePages_ok[OF B assms(1)]) (simp_all add: assms(3))
  show ?thesis using c n k r by blast
qed

theorem batches_cover_pages_in_order_witness:
  "generateFlashcardsWithVisionAndProgress exampleVision ''Analyze these pages'' [1, 0]
     [\<lparr>PageNumber = 1, ImageData = ''data:1''\<rparr>, \<lparr>PageNumber = 2, ImageData = ''data:2''\<rparr>,
      \<lparr>PageNumber = 3, ImageData = ''data:3''\<rparr>]
   = Inr (''=== Pages 1-2 ==='' @ [CHR 0x0A] @ ''analysis of first'' @ [CHR 0x0A, CHR 0x0A] @
          ''=== Pages 3-3 ==='' @ [CHR 0x0A] @ ''analysis of second'')"
proof -
  let ?pages = "[\<lparr>PageNumber = 1, ImageData = ''data:1''\<rparr>, \<lparr>PageNumber = 2, ImageData = ''data:2''\<rparr>,
      \<lparr>PageNumber = 3, ImageData = ''data:3''\<rparr>]"
  let ?text = "\<lambda>k::nat. ''analysis of '' @ (if k = 0 then ''first'' else ''second'')"
  have h1: "ConvertPDFPagesToImages [''data:1'', ''data:2'', ''data:3''] = Inr ?pages"
    by code_simp
  have h2: "(generateFlashcardsWithVisionAndProgress = extractExamTopicsWithVisionAndProgress \<and> (2::nat) = 8) \<or>
           (generateFlashcardsWithVisionAndProgress = generateFlashcardsWithVisionAndProgress \<and> (2::nat) = 2)"
    by simp
  have len: "length (makeBatches 2 ?pages 0 []) = 2" by code_simp
  have h4: "distinct [1::nat, 0]" by simp
  have h5: "set [1::nat, 0] = {0..<length (makeBatches 2 ?pages 0 [])}" unfolding len by auto
  have a: "fst (AnalyzeMultipleImages (exampleVision k) uris ''Analyze these pages'') = Inr (?text k)"
    for k uris
    by (simp add: AnalyzeMultipleImages_def attemptLoop.simps[of _ _ 0] attemptBody_def
        exampleVision_def Let_def)
  have h6: "\<forall>k < length (makeBatches 2 ?pages 0 []).
             fst (AnalyzeMultipleImages (exampleVision k) (imageURIs (makeBatches 2 ?pages 0 [] ! k))
                    ''Analyze these pages'') = Inr (?text k)"
    using a by blast
  note t = batches_cover_pages_in_order[OF h1 h2 refl h4 h5 h6]
  have j: "Join (map (\<lambda>k. pageMarker (int (k * 2) + 1) (int (min (k * 2 + 2) (length ?pages)))
                                 @ [CHR 0x0A] @ ?text k) [0..<2]) [CHR 0x0A, CHR 0x0A]
           = ''=== Pages 1-2 ==='' @ [CHR 0x0A] @ ''analysis of first'' @ [CHR 0x0A, CHR 0x0A] @
          ''=== Pages 3-3 ==='' @ [CHR 0x0A] @ ''analysis of second''"
    by code_simp
  show ?thesis using t j unfolding len by simp
qed

section \<open>The manager's memory: snapshots share nothing with the stored jobs\<close>

lemma wf_state_cong:
  assumes "jobs s' = jobs s" "nextAddr s' = nextAddr s"
      and "\<And>a. jobFiles (objs s' a) = jobFiles (objs s a)"
  shows "wf_state s' = wf_state s"
  using assms by (simp add: wf_state_def)

lemma slotOp_jobFiles:
  assumes "\<And>j. jobFiles (G j) = jobFiles j"
  shows "jobFiles (objs (slotOp jid index F G now s) b) = jobFiles (objs s b)"
  using assms by (cases "jobs s jid") (simp_all add: slotOp_None slotOp_objs)

lemma jobOp_jobFiles:
  assumes "\<And>j. jobFiles (G j) = jobFiles j"
  shows "jobFiles (objs (jobOp jid G now s) b) = jobFiles (objs s b)"
  using assms by (cases "jobs s jid") (simp_all add: jobOp_None jobOp_objs)

lemma wf_slotOp:
  assumes "\<And>j. jobFiles (G j) = jobFiles j"
  shows "wf_state (slotOp jid index F G now s) = wf_state s"
  by (rule wf_state_cong) (simp_all add: slotOp_sel slotOp_jobFiles assms)

lemma wf_jobOp:
  assumes "\<And>j. jobFiles (G j) = jobFiles j"
  shows "wf_state (jobOp jid G now s) = wf_state s"
  by (rule wf_state_cong) (simp_all add: jobOp_sel jobOp_jobFiles assms)

lemma cloneFile_id [simp]: "cloneFile f = f"
  by (simp add: cloneFile_def split: option.splits)

lemma map_cloneFile [simp]: "map cloneFile fs = fs"
  by (induction fs) simp_all

lemma clone_Some:
  "clone (Some a) s =
     (let n = nextAddr s; job = objs s a; fs = filesOf s job
      in (s\<lparr>objs := (objs s)(n := \<lparr>jobID = jobID job, jobStatus = jobStatus job,
                           jobCreatedAt = jobCreatedAt job, jobUpdatedAt = jobUpdatedAt job,
                           jobFiles = (if fs = [] then None else Some (Suc n)),
                           jobResults = jobResults job, jobError = jobError job\<rparr>),
             arrs := (if fs = [] then arrs s else (arrs s)(Suc n := fs)),
             nextAddr := (if fs = [] then Suc n else Suc (Suc n))\<rparr>, Some n))"
  by (auto simp: clone_def newJob_def newFiles_def setJob_def filesOf_def Let_def fun_upd_twist
      split: option.splits)


lemma initialSlots_length [simp]: "length (initialSlots names) = length names"
  by (simp add: initialSlots_def)

lemma initialSlots_Nil [simp]: "initialSlots names = [] \<longleftrightarrow> names = []"
  by (cases names) (simp_all add: initialSlots_def)

lemma initialSlots_empty [simp]: "initialSlots [] = []"
  by (simp add: initialSlots_def)

lemma initialSlots_nth:
  "i < length names \<Longrightarrow>
   initialSlots names ! i
     = zeroFile\<lparr>fileIndex := int i, fileName := names ! i, fileStatus := FileStatusPending\<rparr>"
  by (simp add: initialSlots_def nth_enumerate_eq)

lemma CreateJob_eq:
  "CreateJob names uuid now1 now2 s =
     (let n = nextAddr s; fs = initialSlots names;
          job = \<lparr>jobID = uuid, jobStatus = JobStatusPending, jobCreatedAt = now1,
                 jobUpdatedAt = now2, jobFiles = Some n, jobResults = [], jobError = []\<rparr>
      in (s\<lparr>jobs := (jobs s)(uuid \<mapsto> Suc n),
             objs := (objs s)(Suc n := job,
                              Suc (Suc n) := job\<lparr>jobFiles := (if names = [] then None
                                                              else Some (Suc (Suc (Suc n))))\<rparr>),
             arrs := (if names = [] then (arrs s)(n := fs)
                      else (arrs s)(n := fs, Suc (Suc (Suc n)) := fs)),
             nextAddr := (if names = [] then Suc (Suc (Suc n)) else Suc (Suc (Suc (Suc n))))\<rparr>,
          uuid, Some (Suc (Suc n))))"
  by (simp add: CreateJob_def newFiles_def newJob_def clone_Some filesOf_def Let_def
      initialSlots_def[symmetric])


lemma wf_extend:
  assumes "wf_state s" "jobs s' = jobs s" "nextAddr s \<le> nextAddr s'"
      and "\<And>b. b < nextAddr s \<Longrightarrow> objs s' b = objs s b"
  shows "wf_state s'"
proof -
  have o: "objs s' a = objs s a" if "jobs s jid = Some a" for jid a
    using assms(1,4) that by (auto simp: wf_state_def)
  show ?thesis
  proof -
    have old: "\<And>jid a. jobs s jid = Some a \<Longrightarrow> a < nextAddr s"
            "\<And>jid a fa. jobs s jid = Some a \<Longrightarrow> jobFiles (objs s a) = Some fa \<Longrightarrow> fa < nextAddr s"
            "\<And>jid jid' a. jobs s jid = Some a \<Longrightarrow> jobs s jid' = Some a \<Longrightarrow> jid = jid'"
            "\<And>jid jid' a a' fa. jobs s jid = Some a \<Longrightarrow> jobs s jid' = Some a' \<Longrightarrow>
               jobFiles (objs s a) = Some fa \<Longrightarrow> jobFiles (objs s a') = Some fa \<Longrightarrow> a = a'"
      using assms(1) unfolding wf_state_def by blast+
    have c1: "\<forall>jid a. jobs s' jid = Some a \<longrightarrow> a < nextAddr s'"
      using old(1) assms(3) by (fastforce simp: assms(2))
    have c2: "\<forall>jid a fa. jobs s' jid = Some a \<longrightarrow> jobFiles (objs s' a) = Some fa \<longrightarrow> fa < nextAddr s'"
      using old(2) assms(3) o by (fastforce simp: assms(2))
    have c3: "\<forall>jid jid' a. jobs s' jid = Some a \<longrightarrow> jobs s' jid' = Some a \<longrightarrow> jid = jid'"
      using old(3) by (simp add: assms(2))
    have c4: "\<forall>jid jid' a a' fa. jobs s' jid = Some a \<longrightarrow> jobs s' jid' = Some a' \<longrightarrow>
         jobFiles (objs s' a) = Some fa \<longrightarrow> jobFiles (objs s' a') = Some fa \<longrightarrow> a = a'"
      using old(4) o by (simp add: assms(2))
    show ?thesis unfolding wf_state_def using c1 c2 c3 c4 by blast
  qed
qed

lemma slotsOf_extend:
  assumes "wf_state s" "jobs s' = jobs s"
      and "\<And>b. b < nextAddr s \<Longrightarrow> objs s' b = objs s b"
      and "\<And>b. b < nextAddr s \<Longrightarrow> arrs s' b = arrs s b"
  shows "slotsOf s' jid = slotsOf s jid" "jobOf s' jid = jobOf s jid"
proof -
  show "slotsOf s' jid = slotsOf s jid"
  proof (cases "jobs s jid")
    case None
    then show ?thesis by (simp add: slotsOf_def assms(2))
  next
    case (Some a)
    have a: "a < nextAddr s" using assms(1) Some by (auto simp: wf_state_def)
    have f: "\<And>fa. jobFiles (objs s a) = Some fa \<Longrightarrow> fa < nextAddr s"
      using assms(1) Some by (auto simp: wf_state_def)
    show ?thesis using Some a f assms(3,4)
      by (auto simp: slotsOf_def assms(2) filesOf_def split: option.splits)
  qed
  show "jobOf s' jid = jobOf s jid"
  proof (cases "jobs s jid")
    case None
    then show ?thesis by (simp add: jobOf_def assms(2))
  next
    case (Some a)
    have a: "a < nextAddr s" using assms(1) Some by (auto simp: wf_state_def)
    show ?thesis using Some a assms(3) by (simp add: jobOf_def assms(2))
  qed
qed

lemma detached_extend:
  assumes "wf_state s" "detached p s" "jobs s' = jobs s" "nextAddr s \<le> nextAddr s'"
      and "\<And>b. b < nextAddr s \<Longrightarrow> objs s' b = objs s b"
      and "\<And>b. b < nextAddr s \<Longrightarrow> arrs s' b = arrs s b"
  shows "detached p s'" "objs s' p = objs s p"
        "\<And>fa. jobFiles (objs s p) = Some fa \<Longrightarrow> arrs s' fa = arrs s fa"
proof -
  have p: "p < nextAddr s" using assms(2) by (simp add: detached_def)
  show op: "objs s' p = objs s p" using p assms(5) by simp
  show "\<And>fa. jobFiles (objs s p) = Some fa \<Longrightarrow> arrs s' fa = arrs s fa"
    using assms(2,6) by (simp add: detached_def)
  have o: "objs s' a = objs s a" if "jobs s jid = Some a" for jid a
    using assms(1,5) that by (auto simp: wf_state_def)
  have d: "\<And>jid. jobs s jid \<noteq> Some p"
      "\<And>fa. jobFiles (objs s p) = Some fa \<Longrightarrow> fa < nextAddr s"
      "\<And>fa jid a. jobFiles (objs s p) = Some fa \<Longrightarrow> jobs s jid = Some a \<Longrightarrow>
           jobFiles (objs s a) \<noteq> Some fa"
    using assms(2) unfolding detached_def by blast+
  have "p < nextAddr s'" using p assms(4) by simp
  moreover have "\<forall>jid. jobs s' jid \<noteq> Some p" using d(1) by (simp add: assms(3))
  moreover have "\<forall>fa. jobFiles (objs s' p) = Some fa \<longrightarrow>
        fa < nextAddr s' \<and> (\<forall>jid a. jobs s' jid = Some a \<longrightarrow> jobFiles (objs s' a) \<noteq> Some fa)"
    using d(2,3) o assms(4) unfolding op assms(3) by fastforce
  ultimately show "detached p s'" unfolding detached_def by blast
qed

lemma GetJob_frame:
  "jobs (fst (GetJob jid s)) = jobs s"
  "nextAddr s \<le> nextAddr (fst (GetJob jid s))"
  "b < nextAddr s \<Longrightarrow> objs (fst (GetJob jid s)) b = objs s b"
  "b < nextAddr s \<Longrightarrow> arrs (fst (GetJob jid s)) b = arrs s b"
  by (auto simp: GetJob_def clone_Some Let_def split: option.splits)

lemma wf_CreateJob:
  assumes "wf_state s"
  shows "wf_state (fst (CreateJob names uuid now1 now2 s))"
proof -
  let ?n = "nextAddr s"
  let ?s' = "fst (CreateJob names uuid now1 now2 s)"
  have j: "jobs ?s' = (jobs s)(uuid \<mapsto> Suc ?n)" by (simp add: CreateJob_eq Let_def)
  have nx: "Suc (Suc (Suc ?n)) \<le> nextAddr ?s'" by (simp add: CreateJob_eq Let_def)
  have ob: "\<And>b. b < ?n \<Longrightarrow> objs ?s' b = objs s b" by (simp add: CreateJob_eq Let_def)
  have on: "jobFiles (objs ?s' (Suc ?n)) = Some ?n" by (simp add: CreateJob_eq Let_def)
  have old: "\<And>jid a. jobs s jid = Some a \<Longrightarrow> a < ?n"
            "\<And>jid a fa. jobs s jid = Some a \<Longrightarrow> jobFiles (objs s a) = Some fa \<Longrightarrow> fa < ?n"
            "\<And>jid jid' a. jobs s jid = Some a \<Longrightarrow> jobs s jid' = Some a \<Longrightarrow> jid = jid'"
            "\<And>jid jid' a a' fa. jobs s jid = Some a \<Longrightarrow> jobs s jid' = Some a' \<Longrightarrow>
               jobFiles (objs s a) = Some fa \<Longrightarrow> jobFiles (objs s a') = Some fa \<Longrightarrow> a = a'"
    using assms unfolding wf_state_def by blast+
  have c1: "a < nextAddr ?s'" if "jobs ?s' jid = Some a" for jid a
  proof (cases "jid = uuid")
    case True
    then show ?thesis using that nx by (simp add: j)
  next
    case False
    then have "jobs s jid = Some a" using that by (simp add: j)
    then have "a < ?n" by (rule old(1))
    then show ?thesis using nx by simp
  qed
  have fl: "fa < nextAddr ?s'" if "jobs ?s' jid = Some a" "jobFiles (objs ?s' a) = Some fa" for jid a fa
  proof (cases "jid = uuid")
    case True
    then show ?thesis using that on nx by (simp add: j)
  next
    case False
    then have a: "jobs s jid = Some a" using that by (simp add: j)
    then have "objs ?s' a = objs s a" using ob old(1) by simp
    then have "fa < ?n" using old(2)[OF a] that by simp
    then show ?thesis using nx by simp
  qed
  have fresh: "jobs s i \<noteq> Some (Suc ?n)" for i
    using old(1)[of i "Suc ?n"] by auto
  have c3: "jid = jid'" if "jobs ?s' jid = Some a" "jobs ?s' jid' = Some a" for jid jid' a
    using that old(3) fresh by (auto simp: j split: if_splits)
  have c4: "a = a'" if "jobs ?s' jid = Some a" "jobs ?s' jid' = Some a'"
      "jobFiles (objs ?s' a) = Some fa" "jobFiles (objs ?s' a') = Some fa" for jid jid' a a' fa
  proof -
    have k: "jobFiles (objs ?s' b) = Some fb \<Longrightarrow> jobs ?s' i = Some b \<Longrightarrow>
             (i = uuid \<and> b = Suc ?n \<and> fb = ?n) \<or>
             (i \<noteq> uuid \<and> jobs s i = Some b \<and> jobFiles (objs s b) = Some fb \<and> fb < ?n)" for i b fb
    proof (cases "i = uuid")
      case True
      assume "jobFiles (objs ?s' b) = Some fb" "jobs ?s' i = Some b"
      then show ?thesis using True on by (simp add: j)
    next
      case False
      assume h: "jobFiles (objs ?s' b) = Some fb" "jobs ?s' i = Some b"
      then have b: "jobs s i = Some b" using False by (simp add: j)
      then have "objs ?s' b = objs s b" using ob old(1) by simp
      then show ?thesis using False b h old(2)[OF b] by simp
    qed
    show ?thesis using k[OF that(3) that(1)] k[OF that(4) that(2)] old(4)[of jid a jid' a' fa] by auto
  qed
  show ?thesis unfolding wf_state_def
  proof (intro conjI allI impI)
    fix jid a assume "jobs ?s' jid = Some a" then show "a < nextAddr ?s'" by (rule c1)
  next
    fix jid a fa assume "jobs ?s' jid = Some a" "jobFiles (objs ?s' a) = Some fa"
    then show "fa < nextAddr ?s'" by (rule fl)
  next
    fix jid jid' a assume "jobs ?s' jid = Some a" "jobs ?s' jid' = Some a"
    then show "jid = jid'" by (rule c3)
  next
    fix jid jid' a a' fa
    assume "jobs ?s' jid = Some a" "jobs ?s' jid' = Some a'"
      "jobFiles (objs ?s' a) = Some fa" "jobFiles (objs ?s' a') = Some fa"
    then show "a = a'" by (rule c4)
  qed
qed


lemma wf_dest:
  assumes "wf_state s"
  shows "\<And>jid a. jobs s jid = Some a \<Longrightarrow> a < nextAddr s"
    and "\<And>jid a fa. jobs s jid = Some a \<Longrightarrow> jobFiles (objs s a) = Some fa \<Longrightarrow> fa < nextAddr s"
    and "\<And>jid jid' a. jobs s jid = Some a \<Longrightarrow> jobs s jid' = Some a \<Longrightarrow> jid = jid'"
    and "\<And>jid jid' a a' fa. jobs s jid = Some a \<Longrightarrow> jobs s jid' = Some a' \<Longrightarrow>
               jobFiles (objs s a) = Some fa \<Longrightarrow> jobFiles (objs s a') = Some fa \<Longrightarrow> a = a'"
  using assms unfolding wf_state_def by blast+

lemma detached_dest:
  assumes "detached p s"
  shows "p < nextAddr s" and "\<And>jid. jobs s jid \<noteq> Some p"
    and "\<And>fa. jobFiles (objs s p) = Some fa \<Longrightarrow> fa < nextAddr s"
    and "\<And>fa jid a. jobFiles (objs s p) = Some fa \<Longrightarrow> jobs s jid = Some a \<Longrightarrow>
           jobFiles (objs s a) \<noteq> Some fa"
  using assms unfolding detached_def by blast+

lemma CreateJob_frame:
  "jobs (fst (CreateJob names uuid now1 now2 s)) = (jobs s)(uuid \<mapsto> Suc (nextAddr s))"
  "nextAddr s \<le> nextAddr (fst (CreateJob names uuid now1 now2 s))"
  "b < nextAddr s \<Longrightarrow> objs (fst (CreateJob names uuid now1 now2 s)) b = objs s b"
  "b < nextAddr s \<Longrightarrow> arrs (fst (CreateJob names uuid now1 now2 s)) b = arrs s b"
  "jobFiles (objs (fst (CreateJob names uuid now1 now2 s)) (Suc (nextAddr s))) = Some (nextAddr s)"
  by (simp_all add: CreateJob_eq Let_def)

lemma detached_CreateJob:
  assumes w: "wf_state s" and d: "detached p s"
  shows "detached p (fst (CreateJob names uuid now1 now2 s))"
    and "objs (fst (CreateJob names uuid now1 now2 s)) p = objs s p"
    and "\<And>fa. jobFiles (objs s p) = Some fa \<Longrightarrow>
           arrs (fst (CreateJob names uuid now1 now2 s)) fa = arrs s fa"
proof -
  let ?s' = "fst (CreateJob names uuid now1 now2 s)"
  let ?n = "nextAddr s"
  note f = CreateJob_frame[where names = names and uuid = uuid and ?now1.0 = now1
      and ?now2.0 = now2 and s = s]
  note dd = detached_dest[OF d]
  note ww = wf_dest[OF w]
  show op: "objs ?s' p = objs s p" using f(3) dd(1) by simp
  show "\<And>fa. jobFiles (objs s p) = Some fa \<Longrightarrow> arrs ?s' fa = arrs s fa"
    using f(4) dd(3) by simp
  have a: "p < nextAddr ?s'" using dd(1) f(2) by simp
  have b: "jobs ?s' jid \<noteq> Some p" for jid
    using dd(1,2) by (simp add: f(1))
  have c: "fa < nextAddr ?s' \<and> jobFiles (objs ?s' a) \<noteq> Some fa"
    if "jobFiles (objs ?s' p) = Some fa" "jobs ?s' jid = Some a" for fa jid a
  proof -
    have fa: "jobFiles (objs s p) = Some fa" using that(1) op by simp
    have lt: "fa < ?n" using dd(3)[OF fa] .
    show ?thesis
    proof (cases "jid = uuid")
      case True
      then have "a = Suc ?n" using that(2) by (simp add: f(1))
      then show ?thesis using f(5) lt f(2) by simp
    next
      case False
      then have j: "jobs s jid = Some a" using that(2) by (simp add: f(1))
      then have "objs ?s' a = objs s a" using f(3) ww(1) by simp
      then show ?thesis using dd(4)[OF fa j] lt f(2) by simp
    qed
  qed
  have c': "fa < nextAddr ?s'" if "jobFiles (objs ?s' p) = Some fa" for fa
    using that dd(3) op f(2) by fastforce
  show "detached p ?s'" unfolding detached_def using a b c c' by blast
qed

lemma slotOp_detached:
  assumes d: "detached p s" and G: "\<And>j. jobFiles (G j) = jobFiles j"
  shows "detached p (slotOp jid index F G now s)"
    and "objs (slotOp jid index F G now s) p = objs s p"
    and "\<And>fa. jobFiles (objs s p) = Some fa \<Longrightarrow> arrs (slotOp jid index F G now s) fa = arrs s fa"
proof -
  note dd = detached_dest[OF d]
  let ?s' = "slotOp jid index F G now s"
  show op: "objs ?s' p = objs s p"
  proof (cases "jobs s jid")
    case None then show ?thesis by (simp add: slotOp_None)
  next
    case (Some a)
    then have "a \<noteq> p" using dd(2)[of jid] by auto
    then show ?thesis using Some by (simp add: slotOp_objs)
  qed
  show "\<And>fa. jobFiles (objs s p) = Some fa \<Longrightarrow> arrs ?s' fa = arrs s fa"
  proof -
    fix fa assume fa: "jobFiles (objs s p) = Some fa"
    show "arrs ?s' fa = arrs s fa"
    proof (cases "jobs s jid")
      case None then show ?thesis by (simp add: slotOp_None)
    next
      case (Some a)
      have "jobFiles (objs s a) \<noteq> Some fa" using dd(4)[OF fa Some] .
      then show ?thesis using Some
        by (auto simp: slotOp_arrs withFile_arrs split: option.splits)
    qed
  qed
  show "detached p ?s'"
    using d unfolding detached_def by (simp add: slotOp_sel slotOp_jobFiles[OF G])
qed

lemma jobOp_detached:
  assumes d: "detached p s" and G: "\<And>j. jobFiles (G j) = jobFiles j"
  shows "detached p (jobOp jid G now s)"
    and "objs (jobOp jid G now s) p = objs s p"
    and "\<And>fa. jobFiles (objs s p) = Some fa \<Longrightarrow> arrs (jobOp jid G now s) fa = arrs s fa"
proof -
  note dd = detached_dest[OF d]
  show "objs (jobOp jid G now s) p = objs s p"
  proof (cases "jobs s jid")
    case None then show ?thesis by (simp add: jobOp_None)
  next
    case (Some a)
    then have "a \<noteq> p" using dd(2)[of jid] by auto
    then show ?thesis using Some by (simp add: jobOp_objs)
  qed
  show "\<And>fa. jobFiles (objs s p) = Some fa \<Longrightarrow> arrs (jobOp jid G now s) fa = arrs s fa"
    by (simp add: jobOp_sel)
  show "detached p (jobOp jid G now s)"
    using d unfolding detached_def by (simp add: jobOp_sel jobOp_jobFiles[OF G])
qed

lemma apply_op_wf: "wf_state s \<Longrightarrow> wf_state (apply_op op s)"
proof (cases op)
  case (OpCreateJob names uuid now1 now2)
  assume "wf_state s" then show ?thesis unfolding OpCreateJob by (simp add: wf_CreateJob)
next
  case (OpGetJob jid)
  assume w: "wf_state s"
  show ?thesis unfolding OpGetJob apply_op.simps
    using w by (rule wf_extend) (simp_all add: GetJob_frame)
qed (simp_all add: MarkProcessing_jobOp MarkCompleted_jobOp MarkFailed_jobOp wf_jobOp
       MarkFileStarted_slotOp UpdateFileProgress_slotOp MarkFileComplete_slotOp
       MarkFileError_slotOp wf_slotOp)

lemma apply_op_detached:
  assumes w: "wf_state s" and d: "detached p s"
  shows "detached p (apply_op op s) \<and> objs (apply_op op s) p = objs s p \<and>
         (\<forall>fa. jobFiles (objs s p) = Some fa \<longrightarrow> arrs (apply_op op s) fa = arrs s fa)"
proof (cases op)
  case (OpCreateJob names uuid now1 now2)
  show ?thesis unfolding OpCreateJob apply_op.simps
    using detached_CreateJob[OF w d] by blast
next
  case (OpGetJob jid)
  show ?thesis unfolding OpGetJob apply_op.simps
    using detached_extend[OF w d, of "fst (GetJob jid s)"] by (simp add: GetJob_frame)
next
  case (OpMarkProcessing jid now)
  show ?thesis unfolding OpMarkProcessing apply_op.simps MarkProcessing_jobOp
    using jobOp_detached[OF d] by simp
next
  case (OpMarkCompleted jid now)
  show ?thesis unfolding OpMarkCompleted apply_op.simps MarkCompleted_jobOp
    using jobOp_detached[OF d] by simp
next
  case (OpMarkFailed jid msg now)
  show ?thesis unfolding OpMarkFailed apply_op.simps MarkFailed_jobOp
    using jobOp_detached[OF d] by simp
next
  case (OpMarkFileStarted jid index now)
  show ?thesis unfolding OpMarkFileStarted apply_op.simps MarkFileStarted_slotOp
    using slotOp_detached[OF d] by simp
next
  case (OpUpdateFileProgress jid index step message current tot now)
  show ?thesis unfolding OpUpdateFileProgress apply_op.simps UpdateFileProgress_slotOp
    using slotOp_detached[OF d] by simp
next
  case (OpMarkFileComplete jid index result now)
  show ?thesis unfolding OpMarkFileComplete apply_op.simps MarkFileComplete_slotOp
    using slotOp_detached[OF d] by simp
next
  case (OpMarkFileError jid index message result now)
  show ?thesis unfolding OpMarkFileError apply_op.simps MarkFileError_slotOp
    using slotOp_detached[OF d] by simp
qed

lemma ops_detached:
  assumes "wf_state s" "detached p s"
  shows "objs (foldl (\<lambda>s op. apply_op op s) s ops) p = objs s p \<and>
         filesOf (foldl (\<lambda>s op. apply_op op s) s ops) (objs s p) = filesOf s (objs s p)"
  using assms
proof (induction ops arbitrary: s)
  case Nil
  then show ?case by simp
next
  case (Cons op ops)
  note st = apply_op_detached[OF Cons.prems, of op]
  have w: "wf_state (apply_op op s)" using Cons.prems(1) by (rule apply_op_wf)
  have d: "detached p (apply_op op s)" using st by blast
  have o: "objs (apply_op op s) p = objs s p" using st by blast
  have f: "filesOf (apply_op op s) (objs s p) = filesOf s (objs s p)"
    using st by (auto simp: filesOf_def split: option.splits)
  have ih: "objs (foldl (\<lambda>s op. apply_op op s) (apply_op op s) ops) p = objs (apply_op op s) p \<and>
         filesOf (foldl (\<lambda>s op. apply_op op s) (apply_op op s) ops) (objs (apply_op op s) p)
           = filesOf (apply_op op s) (objs (apply_op op s) p)"
    using Cons.IH[OF w d] .
  show ?case using ih o f by simp
qed


lemma detached_writes:
  assumes d: "detached p s"
  shows "jobOf (setJob p g s) jid = jobOf s jid"
    and "slotsOf (setJob p g s) jid = slotsOf s jid"
    and "jobFiles (objs s p) = Some fa \<Longrightarrow> jobOf (setFile (fa, i) h s) jid = jobOf s jid"
    and "jobFiles (objs s p) = Some fa \<Longrightarrow> slotsOf (setFile (fa, i) h s) jid = slotsOf s jid"
proof -
  note dd = detached_dest[OF d]
  have np: "jobs s jid = Some a \<Longrightarrow> a \<noteq> p" for a using dd(2)[of jid] by auto
  show "jobOf (setJob p g s) jid = jobOf s jid"
    using np by (cases "jobs s jid") (simp_all add: jobOf_def)
  show "slotsOf (setJob p g s) jid = slotsOf s jid"
    using np by (cases "jobs s jid") (auto simp: slotsOf_def filesOf_def split: option.splits)
  show "jobFiles (objs s p) = Some fa \<Longrightarrow> jobOf (setFile (fa, i) h s) jid = jobOf s jid"
    by (simp add: jobOf_def setFile_def)
  show "jobFiles (objs s p) = Some fa \<Longrightarrow> slotsOf (setFile (fa, i) h s) jid = slotsOf s jid"
  proof -
    assume fa: "jobFiles (objs s p) = Some fa"
    show ?thesis
    proof (cases "jobs s jid")
      case None then show ?thesis by (simp add: slotsOf_def setFile_def)
    next
      case (Some a)
      have "jobFiles (objs s a) \<noteq> Some fa" using dd(4)[OF fa Some] .
      then show ?thesis using Some
        by (auto simp: slotsOf_def setFile_def filesOf_def split: option.splits)
    qed
  qed
qed

lemma CreateJob_detached:
  assumes w: "wf_state s"
  shows "detached (Suc (Suc (nextAddr s))) (fst (CreateJob names uuid now1 now2 s))"
proof -
  let ?n = "nextAddr s"
  let ?s' = "fst (CreateJob names uuid now1 now2 s)"
  note ww = wf_dest[OF w]
  have j: "jobs ?s' = (jobs s)(uuid \<mapsto> Suc ?n)" by (simp add: CreateJob_eq Let_def)
  have nx: "nextAddr ?s' = (if names = [] then Suc (Suc (Suc ?n)) else Suc (Suc (Suc (Suc ?n))))"
    by (simp add: CreateJob_eq Let_def)
  have pf: "jobFiles (objs ?s' (Suc (Suc ?n))) = (if names = [] then None else Some (Suc (Suc (Suc ?n))))"
    by (simp add: CreateJob_eq Let_def)
  have af: "jobFiles (objs ?s' (Suc ?n)) = Some ?n" by (simp add: CreateJob_eq Let_def)
  have ob: "\<And>b. b < ?n \<Longrightarrow> objs ?s' b = objs s b" by (simp add: CreateJob_eq Let_def)
  have a: "Suc (Suc ?n) < nextAddr ?s'" by (simp add: nx)
  have b: "jobs ?s' jid \<noteq> Some (Suc (Suc ?n))" for jid
    using ww(1)[of jid "Suc (Suc ?n)"] by (auto simp: j)
  have c: "fa < nextAddr ?s' \<and> jobFiles (objs ?s' a) \<noteq> Some fa"
    if "jobFiles (objs ?s' (Suc (Suc ?n))) = Some fa" "jobs ?s' jid = Some a" for fa jid a
  proof -
    have fa: "fa = Suc (Suc (Suc ?n))" "names \<noteq> []" using that(1) pf by (auto split: if_splits)
    show ?thesis
    proof (cases "jid = uuid")
      case True
      then have "a = Suc ?n" using that(2) by (simp add: j)
      then show ?thesis using fa af nx by simp
    next
      case False
      then have jj: "jobs s jid = Some a" using that(2) by (simp add: j)
      then have oa: "objs ?s' a = objs s a" using ob ww(1) by simp
      have "jobFiles (objs s a) \<noteq> Some fa" using ww(2)[OF jj, of fa] fa by auto
      then show ?thesis using oa fa nx by simp
    qed
  qed
  have c': "fa < nextAddr ?s'" if "jobFiles (objs ?s' (Suc (Suc ?n))) = Some fa" for fa
    using that pf nx by (auto split: if_splits)
  show ?thesis unfolding detached_def using a b c c' by blast
qed

lemma wf_NewJobManager: "wf_state NewJobManager"
  by (simp add: wf_state_def NewJobManager_def)

lemma wf_exampleJob: "wf_state exampleJob"
  unfolding exampleJob_def using wf_NewJobManager by (rule wf_CreateJob)

text \<open>
  C7: from a well-formed manager state, \<open>CreateJob\<close> returns the given identifier and
  a snapshot with one slot per file name, in the order submitted, each with that index and
  name, status \<open>pending\<close> and \<open>Current\<close>, \<open>Total\<close> and \<open>Percent\<close> 0; the snapshot has
  the contents of the stored job but is another struct with another \<open>Files\<close> array,
  neither reachable from the manager. So no sequence of manager operations changes what
  the snapshot holds, and no write through the snapshot changes a job or a slot the
  manager holds.
\<close>

theorem CreateJob_snapshot:
  assumes "wf_state s" and "CreateJob names uuid now1 now2 s = (s', jid, snap)"
  shows "jid = uuid \<and>
         (\<exists>p a. snap = Some p \<and> jobs s' uuid = Some a \<and> p \<noteq> a \<and>
            length (filesOf s' (objs s' p)) = length names \<and>
            (\<forall>i < length names.
               fileIndex (filesOf s' (objs s' p) ! i) = int i \<and>
               fileName (filesOf s' (objs s' p) ! i) = names ! i \<and>
               fileStatus (filesOf s' (objs s' p) ! i) = FileStatusPending \<and>
               fileCurrent (filesOf s' (objs s' p) ! i) = 0 \<and>
               fileTotal (filesOf s' (objs s' p) ! i) = 0 \<and>
               filePercent (filesOf s' (objs s' p) ! i) = 0) \<and>
            jobID (objs s' p) = uuid \<and> jobStatus (objs s' p) = JobStatusPending \<and>
            jobResults (objs s' p) = [] \<and>
            filesOf s' (objs s' p) = slotsOf s' uuid \<and>
            (objs s' p)\<lparr>jobFiles := None\<rparr> = (objs s' a)\<lparr>jobFiles := None\<rparr> \<and>
            jobFiles (objs s' p) \<noteq> jobFiles (objs s' a) \<and>
            detached p s' \<and>
            (\<forall>ops. objs (foldl (\<lambda>s op. apply_op op s) s' ops) p = objs s' p \<and>
                   filesOf (foldl (\<lambda>s op. apply_op op s) s' ops) (objs s' p)
                     = filesOf s' (objs s' p)) \<and>
            (\<forall>g jid'. jobOf (setJob p g s') jid' = jobOf s' jid' \<and>
                      slotsOf (setJob p g s') jid' = slotsOf s' jid') \<and>
            (\<forall>fa i g jid'. jobFiles (objs s' p) = Some fa \<longrightarrow>
                      jobOf (setFile (fa, i) g s') jid' = jobOf s' jid' \<and>
                      slotsOf (setFile (fa, i) g s') jid' = slotsOf s' jid'))"
proof -
  let ?n = "nextAddr s"
  let ?p = "Suc (Suc ?n)"
  let ?a = "Suc ?n"
  have s': "s' = fst (CreateJob names uuid now1 now2 s)" using assms(2) by simp
  have jid: "jid = uuid" using assms(2) by (simp add: CreateJob_eq Let_def)
  have snap: "snap = Some ?p" using assms(2) by (simp add: CreateJob_eq Let_def)
  have ja: "jobs s' uuid = Some ?a" by (simp add: s' CreateJob_eq Let_def)
  have fp: "filesOf s' (objs s' ?p) = initialSlots names"
    by (simp add: s' CreateJob_eq Let_def filesOf_def)
  have fa: "slotsOf s' uuid = initialSlots names"
    by (simp add: s' CreateJob_eq Let_def slotsOf_def filesOf_def)
  have slots: "\<forall>i < length names.
               fileIndex (filesOf s' (objs s' ?p) ! i) = int i \<and>
               fileName (filesOf s' (objs s' ?p) ! i) = names ! i \<and>
               fileStatus (filesOf s' (objs s' ?p) ! i) = FileStatusPending \<and>
               fileCurrent (filesOf s' (objs s' ?p) ! i) = 0 \<and>
               fileTotal (filesOf s' (objs s' ?p) ! i) = 0 \<and>
               filePercent (filesOf s' (objs s' ?p) ! i) = 0"
    unfolding fp by (simp add: initialSlots_nth zeroFile_def)
  have flds: "jobID (objs s' ?p) = uuid" "jobStatus (objs s' ?p) = JobStatusPending"
             "jobResults (objs s' ?p) = []"
             "(objs s' ?p)\<lparr>jobFiles := None\<rparr> = (objs s' ?a)\<lparr>jobFiles := None\<rparr>"
             "jobFiles (objs s' ?p) \<noteq> jobFiles (objs s' ?a)"
    by (simp_all add: s' CreateJob_eq Let_def)
  have w': "wf_state s'" unfolding s' using assms(1) by (rule wf_CreateJob)
  have d': "detached ?p s'" unfolding s' using assms(1) by (rule CreateJob_detached)
  have ops: "\<forall>ops. objs (foldl (\<lambda>s op. apply_op op s) s' ops) ?p = objs s' ?p \<and>
                   filesOf (foldl (\<lambda>s op. apply_op op s) s' ops) (objs s' ?p)
                     = filesOf s' (objs s' ?p)"
    using ops_detached[OF w' d'] by blast
  have wr1: "\<forall>g jid'. jobOf (setJob ?p g s') jid' = jobOf s' jid' \<and>
                      slotsOf (setJob ?p g s') jid' = slotsOf s' jid'"
    using detached_writes(1,2)[OF d'] by blast
  have wr2: "\<forall>fa i g jid'. jobFiles (objs s' ?p) = Some fa \<longrightarrow>
                      jobOf (setFile (fa, i) g s') jid' = jobOf s' jid' \<and>
                      slotsOf (setFile (fa, i) g s') jid' = slotsOf s' jid'"
    using detached_writes(3,4)[OF d'] by blast
  have l: "length (filesOf s' (objs s' ?p)) = length names" by (simp add: fp)
  have e: "filesOf s' (objs s' ?p) = slotsOf s' uuid" by (simp add: fp fa)
  have "snap = Some ?p \<and> jobs s' uuid = Some ?a \<and> ?p \<noteq> ?a" using snap ja by simp
  then show ?thesis using jid l slots flds e d' ops wr1 wr2 by blast
qed

theorem CreateJob_snapshot_witness:
  "map fileName (filesOf exampleJob (objs exampleJob 2)) = [''a.pdf'', ''b.pdf''] \<and>
   map fileStatus (filesOf exampleJob (objs exampleJob 2)) = [''pending'', ''pending''] \<and>
   objs (MarkFileStarted ''job-1'' 0 7 exampleJob) 2 = objs exampleJob 2 \<and>
   filesOf (MarkFileStarted ''job-1'' 0 7 exampleJob) (objs exampleJob 2)
     = filesOf exampleJob (objs exampleJob 2)"
proof -
  have c: "CreateJob [''a.pdf'', ''b.pdf''] ''job-1'' 5 6 NewJobManager = (exampleJob, ''job-1'', Some 2)"
    by (simp add: exampleJob_def CreateJob_eq Let_def NewJobManager_def numeral_2_eq_2)
  note t = CreateJob_snapshot[OF wf_NewJobManager c]
  then obtain p a where p: "Some 2 = Some p"
      and o: "\<forall>ops. objs (foldl (\<lambda>s op. apply_op op s) exampleJob ops) p = objs exampleJob p \<and>
                   filesOf (foldl (\<lambda>s op. apply_op op s) exampleJob ops) (objs exampleJob p)
                     = filesOf exampleJob (objs exampleJob p)"
    by blast
  have p2: "p = 2" using p by simp
  have m: "objs (MarkFileStarted ''job-1'' 0 7 exampleJob) 2 = objs exampleJob 2 \<and>
   filesOf (MarkFileStarted ''job-1'' 0 7 exampleJob) (objs exampleJob 2)
     = filesOf exampleJob (objs exampleJob 2)"
    using o[rule_format, of "[OpMarkFileStarted ''job-1'' 0 7]"] unfolding p2 by simp
  have n: "map fileName (filesOf exampleJob (objs exampleJob 2)) = [''a.pdf'', ''b.pdf'']"
          "map fileStatus (filesOf exampleJob (objs exampleJob 2)) = [''pending'', ''pending'']"
    by code_simp+
  show ?thesis using m n by simp
qed

section \<open>Terminal slots\<close>

lemma slotOp_other:
  assumes w: "wf_state s" and a: "jobs s jid = Some a" and ne: "jid' \<noteq> jid"
      and G: "\<And>j. jobFiles (G j) = jobFiles j"
  shows "slotsOf (slotOp jid' index F G now s) jid = slotsOf s jid"
proof (cases "jobs s jid'")
  case None
  then show ?thesis by (simp add: slotOp_None)
next
  case (Some a')
  note ww = wf_dest[OF w]
  have aa: "a' \<noteq> a" using ww(3)[OF Some, of jid] a ne by auto
  have ff: "jobFiles (objs s a) = Some fa \<Longrightarrow> jobFiles (objs s a') \<noteq> Some fa" for fa
    using ww(4)[OF Some a, of fa] aa by auto
  show ?thesis using a Some aa ff
    by (auto simp: slotsOf_def slotOp_sel slotOp_objs slotOp_arrs withFile_arrs filesOf_def
        split: option.splits)
qed

lemma slotOp_terminal:
  assumes w: "wf_state s" and a: "jobs s jid = Some a" and i: "i < length (slotsOf s jid)"
      and t: "terminal (fileStatus (slotsOf s jid ! i))"
      and G: "\<And>j. jobFiles (G j) = jobFiles j"
      and F: "jid' = jid \<and> index = int i \<longrightarrow> terminal (fileStatus (F (slotsOf s jid ! i)))"
  shows "length (slotsOf (slotOp jid' index F G now s) jid) = length (slotsOf s jid) \<and>
         terminal (fileStatus (slotsOf (slotOp jid' index F G now s) jid ! i))"
proof (cases "jid' = jid")
  case False
  then show ?thesis using slotOp_other[OF w a False G] t by simp
next
  case True
  show ?thesis
  proof (cases "0 \<le> index \<and> index < int (length (slotsOf s jid))")
    case False
    then show ?thesis using t a G by (auto simp: True slotOp_slotsOf)
  next
    case v: True
    show ?thesis
    proof (cases "nat index = i")
      case True
      then have "index = int i" using v by linarith
      then show ?thesis using F a G v i \<open>jid' = jid\<close> by (simp add: slotOp_slotsOf)
    next
      case False
      then show ?thesis using t a G v i by (simp add: True slotOp_slotsOf)
    qed
  qed
qed

text \<open>
  C5, as the code has it: the Job Manager does not guard terminal slots.
  \<open>MarkFileStarted\<close> and \<open>UpdateFileProgress\<close> addressed to a slot set its status
  to \<open>processing\<close> whatever it was. Every other operation (on this or another job,
  short of a \<open>CreateJob\<close> that takes over the job's identifier) leaves a slot that
  is \<open>complete\<close> or \<open>error\<close> in one of these two statuses.
\<close>

theorem terminal_slot_stays_terminal:
  assumes "wf_state s" and "jobs s jid = Some a" and "i < length (slotsOf s jid)"
      and "terminal (fileStatus (slotsOf s jid ! i))"
      and "\<not> reopens jid (int i) op" and "\<not> replaces jid op"
  shows "length (slotsOf (apply_op op s) jid) = length (slotsOf s jid) \<and>
         terminal (fileStatus (slotsOf (apply_op op s) jid ! i)) \<and>
         fileStatus (slotsOf (MarkFileStarted jid (int i) now s) jid ! i) = FileStatusProcessing \<and>
         fileStatus (slotsOf (UpdateFileProgress jid (int i) step message current tot now s) jid ! i)
           = FileStatusProcessing"
proof -
  have tc: "terminal FileStatusComplete" and te: "terminal FileStatusError"
    by (simp_all add: terminal_def)
  have main: "length (slotsOf (apply_op op s) jid) = length (slotsOf s jid) \<and>
         terminal (fileStatus (slotsOf (apply_op op s) jid ! i))"
  proof (cases op)
    case (OpCreateJob names uuid now1 now2)
    have ne: "uuid \<noteq> jid" using assms(6) OpCreateJob by simp
    let ?s' = "fst (CreateJob names uuid now1 now2 s)"
    note f = CreateJob_frame[where names = names and uuid = uuid and ?now1.0 = now1
      and ?now2.0 = now2 and s = s]
    note ww = wf_dest[OF assms(1)]
    have j: "jobs ?s' jid = Some a" using ne assms(2) by (simp add: f(1))
    have o: "objs ?s' a = objs s a" using f(3) ww(1)[OF assms(2)] by simp
    have "\<And>fa. jobFiles (objs s a) = Some fa \<Longrightarrow> arrs ?s' fa = arrs s fa"
      using f(4) ww(2)[OF assms(2)] by simp
    then have "slotsOf ?s' jid = slotsOf s jid"
      using j o assms(2) by (auto simp: slotsOf_def filesOf_def split: option.splits)
    then show ?thesis using assms(4) by (simp add: OpCreateJob)
  next
    case (OpGetJob jid')
    have "slotsOf (fst (GetJob jid' s)) jid = slotsOf s jid"
      using assms(1) by (rule slotsOf_extend) (simp_all add: GetJob_frame)
    then show ?thesis using assms(4) by (simp add: OpGetJob)
  next
    case (OpMarkProcessing jid' now')
    then show ?thesis using assms(4) by (simp add: MarkProcessing_jobOp jobOp_slotsOf)
  next
    case (OpMarkCompleted jid' now')
    then show ?thesis using assms(4) by (simp add: MarkCompleted_jobOp jobOp_slotsOf)
  next
    case (OpMarkFailed jid' msg now')
    then show ?thesis using assms(4) by (simp add: MarkFailed_jobOp jobOp_slotsOf)
  next
    case (OpMarkFileStarted jid' index now')
    have nn: "\<not> (jid' = jid \<and> index = int i)" using assms(5) OpMarkFileStarted by simp
    show ?thesis unfolding OpMarkFileStarted apply_op.simps MarkFileStarted_slotOp
      by (rule slotOp_terminal[OF assms(1-4)]) (simp_all add: nn)
  next
    case (OpUpdateFileProgress jid' index step' message' current' tot' now')
    have nn: "\<not> (jid' = jid \<and> index = int i)" using assms(5) OpUpdateFileProgress by simp
    show ?thesis unfolding OpUpdateFileProgress apply_op.simps UpdateFileProgress_slotOp
      by (rule slotOp_terminal[OF assms(1-4)]) (simp_all add: nn)
  next
    case (OpMarkFileComplete jid' index result now')
    show ?thesis unfolding OpMarkFileComplete apply_op.simps MarkFileComplete_slotOp
      by (rule slotOp_terminal[OF assms(1-4)]) (simp_all add: tc)
  next
    case (OpMarkFileError jid' index message' result now')
    show ?thesis unfolding OpMarkFileError apply_op.simps MarkFileError_slotOp
      by (rule slotOp_terminal[OF assms(1-4)]) (simp_all add: te)
  qed
  have r1: "fileStatus (slotsOf (MarkFileStarted jid (int i) now s) jid ! i) = FileStatusProcessing"
    using assms(2,3) by (simp add: MarkFileStarted_slotOp slotOp_slotsOf)
  have r2: "fileStatus (slotsOf (UpdateFileProgress jid (int i) step message current tot now s) jid ! i)
           = FileStatusProcessing"
    using assms(2,3) by (simp add: UpdateFileProgress_slotOp slotOp_slotsOf)
  show ?thesis using main r1 r2 by blast
qed

theorem terminal_slot_stays_terminal_witness:
  "terminal (fileStatus (slotsOf
      (apply_op (OpUpdateFileProgress ''job-1'' 1 ''save'' ''Saving'' 90 100 8) exampleDone)
      ''job-1'' ! 0)) \<and>
   terminal (fileStatus (slotsOf
      (apply_op (OpMarkFileError ''job-1'' 0 ''late failure'' okResult 8) exampleDone)
      ''job-1'' ! 0))"
proof -
  have w: "wf_state exampleDone"
    using apply_op_wf[OF wf_exampleJob, of "OpMarkFileComplete ''job-1'' 0 okResult 7"]
    by (simp add: exampleDone_def)
  have j: "jobs exampleDone ''job-1'' = Some 1" by code_simp
  have l: "0 < length (slotsOf exampleDone ''job-1'')" by code_simp
  have t: "terminal (fileStatus (slotsOf exampleDone ''job-1'' ! 0))" by code_simp
  have r1: "\<not> reopens ''job-1'' (int 0) (OpUpdateFileProgress ''job-1'' 1 ''save'' ''Saving'' 90 100 8)"
    by simp
  have r2: "\<not> reopens ''job-1'' (int 0) (OpMarkFileError ''job-1'' 0 ''late failure'' okResult 8)"
    by simp
  have p1: "\<not> replaces ''job-1'' (OpUpdateFileProgress ''job-1'' 1 ''save'' ''Saving'' 90 100 8)"
    by simp
  have p2: "\<not> replaces ''job-1'' (OpMarkFileError ''job-1'' 0 ''late failure'' okResult 8)"
    by simp
  show ?thesis
    using terminal_slot_stays_terminal[OF w j l t r1 p1]
          terminal_slot_stays_terminal[OF w j l t r2 p2]
    by blast
qed

text \<open>
  C5 as stated fails: slot 0 of the example job is \<open>complete\<close>, and
  \<open>UpdateFileProgress\<close> or \<open>MarkFileStarted\<close> on it makes it \<open>processing\<close> again.
\<close>

theorem terminal_slot_reopened_counterexample:
  "fileStatus (slotsOf exampleDone ''job-1'' ! 0) = ''complete'' \<and>
   fileStatus (slotsOf (UpdateFileProgress ''job-1'' 0 ''save'' ''Saving'' 90 100 8 exampleDone)
                 ''job-1'' ! 0) = ''processing'' \<and>
   fileStatus (slotsOf (MarkFileStarted ''job-1'' 0 8 exampleDone) ''job-1'' ! 0) = ''processing''"
  by code_simp

end
